theory Spec2Isabelle
  imports Complex_Main "HOL-Library.Word"
begin

unbundle bit_operations_syntax

section \<open>The ESP-IDF boundary: error codes, handles and a scripted driver\<close>

text \<open>
  \<^verbatim>\<open>esp_err_t\<close> is a C \<^verbatim>\<open>int\<close>; in \<^verbatim>\<open>esp_err.h\<close>, \<^verbatim>\<open>ESP_OK\<close> is 0,
  \<^verbatim>\<open>ESP_ERR_TIMEOUT\<close> is 0x107 and \<^verbatim>\<open>ESP_FAIL\<close> is -1. A driver handle is a pointer: \<open>None\<close> is \<^verbatim>\<open>nullptr\<close>,
  \<open>Some a\<close> the object at address \<open>a\<close>.
\<close>

type_synonym esp_err_t = int

definition ESP_OK :: esp_err_t where
  "ESP_OK = 0"

definition ESP_ERR_TIMEOUT :: esp_err_t where
  "ESP_ERR_TIMEOUT = 263"

definition ESP_FAIL :: esp_err_t where
  "ESP_FAIL = - 1"

type_synonym handle = "nat option"

text \<open>The functions of the driver, the clock, the scheduler and the allocator that the
  source calls.\<close>

datatype drv_fn =
    adc_oneshot_new_unit
  | adc_oneshot_config_channel
  | adc_oneshot_read
  | adc_cali_create_scheme_curve_fitting
  | adc_continuous_new_handle
  | adc_continuous_config
  | adc_continuous_deinit
  | adc_continuous_start
  | adc_continuous_read
  | adc_continuous_stop
  | esp_timer_get_time
  | vTaskDelay
  | malloc

datatype log_level = LOG_E | LOG_W

text \<open>
  The world outside the two classes. Its first six fields are the script of the
  environment and never change: the return code of the k-th call of each driver function,
  the raw code the k-th single-shot read stores, the calibration curve
  (\<^verbatim>\<open>adc_cali_raw_to_voltage\<close>, whose own return code the source ignores), the bytes the
  k-th streaming read stores, the k-th reading of the microsecond clock, and whether the
  k-th \<^verbatim>\<open>malloc\<close> returns \<^verbatim>\<open>NULL\<close>. The last three fields are what the program
  does to the world: the calls made so far (each with the handle it was given, latest
  last), the streaming handles allocated and not yet released, and the lines logged.
\<close>

record world =
  ret :: "drv_fn \<Rightarrow> nat \<Rightarrow> esp_err_t"
  raw_of :: "nat \<Rightarrow> int"
  cali :: "int \<Rightarrow> int"
  frame_of :: "nat \<Rightarrow> 8 word list"
  time_of :: "nat \<Rightarrow> int"
  malloc_null :: "nat \<Rightarrow> bool"
  calls :: "(drv_fn \<times> handle) list"
  live :: "nat list"
  logged :: "(log_level \<times> string \<times> esp_err_t option) list"

definition called :: "drv_fn \<Rightarrow> world \<Rightarrow> nat" where
  "called f w = length (filter (\<lambda>c. fst c = f) (calls w))"

definition drv_call :: "drv_fn \<Rightarrow> handle \<Rightarrow> world \<Rightarrow> esp_err_t \<times> world" where
  "drv_call f h w = (ret w f (called f w), w\<lparr>calls := calls w @ [(f, h)]\<rparr>)"

definition log_msg :: "log_level \<Rightarrow> string \<Rightarrow> esp_err_t option \<Rightarrow> world \<Rightarrow> world" where
  "log_msg lvl msg err w = w\<lparr>logged := logged w @ [(lvl, msg, err)]\<rparr>"

text \<open>
  A function that creates an object writes its address through the out-pointer only when
  it succeeds, as the ESP-IDF functions do; \<open>cur\<close> is what the pointed-to field held.
  The fresh address is the number of calls made, so it is never null and never reused.
\<close>

definition drv_create :: "drv_fn \<Rightarrow> handle \<Rightarrow> world \<Rightarrow> esp_err_t \<times> handle \<times> world" where
  "drv_create f cur w =
     (case drv_call f None w of (err, w1) \<Rightarrow>
        if err = ESP_OK then (err, Some (length (calls w1)), w1) else (err, cur, w1))"

definition drv_continuous_new_handle :: "handle \<Rightarrow> world \<Rightarrow> esp_err_t \<times> handle \<times> world" where
  "drv_continuous_new_handle cur w =
     (case drv_create adc_continuous_new_handle cur w of (err, h, w1) \<Rightarrow>
        if err = ESP_OK then (err, h, w1\<lparr>live := the h # live w1\<rparr>) else (err, h, w1))"

text \<open>\<^verbatim>\<open>adc_continuous_deinit\<close> releases the handle it is given; the source ignores its
  return code.\<close>

definition drv_continuous_deinit :: "handle \<Rightarrow> world \<Rightarrow> world" where
  "drv_continuous_deinit h w =
     (case drv_call adc_continuous_deinit h w of (err, w1) \<Rightarrow>
        (case h of None \<Rightarrow> w1 | Some a \<Rightarrow> w1\<lparr>live := remove1 a (live w1)\<rparr>))"

definition drv_oneshot_read :: "handle \<Rightarrow> world \<Rightarrow> esp_err_t \<times> int \<times> world" where
  "drv_oneshot_read h w =
     (case drv_call adc_oneshot_read h w of (err, w1) \<Rightarrow>
        (err, raw_of w (called adc_oneshot_read w), w1))"

text \<open>A streaming read stores at most \<open>len\<close> bytes at the start of the buffer, leaves the
  rest of the buffer as it was, and reports how many bytes it stored.\<close>

definition drv_continuous_read ::
  "handle \<Rightarrow> 8 word list \<Rightarrow> nat \<Rightarrow> world \<Rightarrow> esp_err_t \<times> 8 word list \<times> nat \<times> world" where
  "drv_continuous_read h buffer len w =
     (case drv_call adc_continuous_read h w of (err, w1) \<Rightarrow>
        let bytes = take (min len (length buffer)) (frame_of w (called adc_continuous_read w))
        in (err, bytes @ drop (length bytes) buffer, length bytes, w1))"

definition drv_timer_get_time :: "world \<Rightarrow> int \<times> world" where
  "drv_timer_get_time w =
     (time_of w (called esp_timer_get_time w), snd (drv_call esp_timer_get_time None w))"

definition drv_malloc :: "world \<Rightarrow> bool \<times> world" where
  "drv_malloc w = (malloc_null w (called malloc w), snd (drv_call malloc None w))"

section \<open>Machine arithmetic\<close>

text \<open>A C \<^verbatim>\<open>int\<close> is 32 bits wide on the target; a value that leaves the range wraps
  around.\<close>

definition INT32_MAX :: int where
  "INT32_MAX = 2147483647"

definition INT32_MIN :: int where
  "INT32_MIN = - 2147483648"

definition wrap_i32 :: "int \<Rightarrow> int" where
  "wrap_i32 x = (x + 2 ^ 31) mod 2 ^ 32 - 2 ^ 31"

text \<open>
  Single precision (IEEE 754 binary32) arithmetic on the non-negative values the source
  computes with. A \<^verbatim>\<open>float\<close> is the rational it denotes; every operation is the exact
  operation followed by \<open>f32_round\<close>, which rounds to the nearest value with a 24-bit
  significand, ties to the even significand. \<open>binade x\<close> is the exponent of the leading
  bit of \<open>x\<close>. Subnormal values and overflow do not occur for the values computed here
  (fractions in \<open>[0.1, 0.9]\<close> and sizes below \<open>2 ^ 32\<close>).
\<close>

fun bit_length :: "nat \<Rightarrow> nat" where
  "bit_length n = (if n = 0 then 0 else Suc (bit_length (n div 2)))"

definition pow2 :: "int \<Rightarrow> rat" where
  "pow2 e = (if 0 \<le> e then 2 ^ nat e else 1 / 2 ^ nat (- e))"

definition binade :: "rat \<Rightarrow> int" where
  "binade x =
     (if 1 \<le> x then int (bit_length (nat \<lfloor>x\<rfloor>)) - 1
      else - int (bit_length (nat (\<lceil>1 / x\<rceil> - 1))))"

definition round_half_even :: "rat \<Rightarrow> int" where
  "round_half_even y =
     (let f = \<lfloor>y\<rfloor>; d = y - of_int f in
      if d < 1 / 2 then f
      else if 1 / 2 < d then f + 1
      else if even f then f else f + 1)"

definition f32_round :: "rat \<Rightarrow> rat" where
  "f32_round x =
     (if x \<le> 0 then 0
      else let e = binade x in
           of_int (round_half_even (x * pow2 (23 - e))) * pow2 (e - 23))"

section \<open>ADCChannel::calculatePercWidth\<close>

text \<open>
  The vector is passed by reference and sorted in place, so the function returns the
  vector as it leaves it together with the width. \<^verbatim>\<open>std::sort\<close> on \<^verbatim>\<open>int\<close> is
  \<open>sort\<close>. \<open>percentile\<close> is an \<^verbatim>\<open>int8_t\<close>; \<open>n - 1\<close> is a \<^verbatim>\<open>size_t\<close> converted to
  \<^verbatim>\<open>float\<close>; the cast of the product back to \<^verbatim>\<open>size_t\<close> truncates.
\<close>

definition calculatePercWidth :: "int list \<Rightarrow> int \<Rightarrow> int list \<times> int" where
  "calculatePercWidth data percentile =
     (if percentile < 10 \<or> percentile > 90 then (data, 0)
      else if data = [] then (data, 0)
      else
        let sorted_data = sort data;
            n = length sorted_data;
            perc_decimal = f32_round (of_int percentile / 100);
            lower_index = nat \<lfloor>f32_round (f32_round (of_nat (n - 1)) * perc_decimal)\<rfloor>;
            upper_index =
              nat \<lfloor>f32_round (f32_round (of_nat (n - 1)) * f32_round (1 - perc_decimal))\<rfloor>;
            lower_index = min lower_index (n - 1);
            upper_index = min upper_index (n - 1);
            lower_value = sorted_data ! lower_index;
            upper_value = sorted_data ! upper_index
        in (sorted_data, wrap_i32 (upper_value - lower_value)))"

text \<open>The two indices as the code computes them, for a vector of \<open>n\<close> values: the
  expressions of \<open>calculatePercWidth\<close> above, named.\<close>

definition code_lower_index :: "nat \<Rightarrow> int \<Rightarrow> nat" where
  "code_lower_index n percentile =
     min (nat \<lfloor>f32_round (f32_round (of_nat (n - 1)) * f32_round (of_int percentile / 100))\<rfloor>)
       (n - 1)"

definition code_upper_index :: "nat \<Rightarrow> int \<Rightarrow> nat" where
  "code_upper_index n percentile =
     min (nat \<lfloor>f32_round (f32_round (of_nat (n - 1)) *
                        f32_round (1 - f32_round (of_int percentile / 100)))\<rfloor>)
       (n - 1)"

text \<open>
  The percentile width as the specification words it, in exact arithmetic: the indices
  are \<open>(n - 1) * p / 100\<close> and \<open>(n - 1) * (1 - p / 100)\<close>, truncated and clamped to
  \<open>[0, n - 1]\<close>.
\<close>

definition spec_lower_index :: "nat \<Rightarrow> int \<Rightarrow> nat" where
  "spec_lower_index n p = min (nat \<lfloor>(of_nat (n - 1) :: rat) * (of_int p / 100)\<rfloor>) (n - 1)"

definition spec_upper_index :: "nat \<Rightarrow> int \<Rightarrow> nat" where
  "spec_upper_index n p = min (nat \<lfloor>(of_nat (n - 1) :: rat) * (1 - of_int p / 100)\<rfloor>) (n - 1)"

definition spec_percWidth :: "int list \<Rightarrow> int \<Rightarrow> int" where
  "spec_percWidth data p =
     sort data ! spec_upper_index (length data) p - sort data ! spec_lower_index (length data) p"

section \<open>ADCUnit\<close>

record ADCUnit =
  u_is_initialized :: bool
  u_unit_id :: nat
  u_cont_handle :: handle
  u_continuous_initialized :: bool
  u_oneshot_handle :: handle

definition ADCUnit_ctor :: "nat \<Rightarrow> world \<Rightarrow> ADCUnit \<times> world" where
  "ADCUnit_ctor unit_id w =
     (let u = \<lparr>u_is_initialized = False, u_unit_id = unit_id, u_cont_handle = None,
               u_continuous_initialized = False, u_oneshot_handle = None\<rparr>
      in case drv_create adc_oneshot_new_unit (u_oneshot_handle u) w of (err, h, w1) \<Rightarrow>
           let u = u\<lparr>u_oneshot_handle := h, u_is_initialized := (err = ESP_OK)\<rparr>
           in if \<not> u_is_initialized u
              then (u, log_msg LOG_E ''Failed to create oneshot unit'' (Some err) w1)
              else (u, w1))"

definition ADCUnit_create :: "nat \<Rightarrow> world \<Rightarrow> ADCUnit option \<times> world" where
  "ADCUnit_create unit_id w =
     (case ADCUnit_ctor unit_id w of (new_unit, w1) \<Rightarrow>
        if u_is_initialized new_unit then (Some new_unit, w1) else (None, w1))"

definition getOneshotHandle :: "ADCUnit \<Rightarrow> handle" where
  "getOneshotHandle u = u_oneshot_handle u"

definition ensureContinuousInitialized :: "ADCUnit \<Rightarrow> world \<Rightarrow> esp_err_t \<times> ADCUnit \<times> world" where
  "ensureContinuousInitialized u w =
     (if u_continuous_initialized u then (ESP_OK, u, w)
      else case drv_continuous_new_handle (u_cont_handle u) w of (err, h, w1) \<Rightarrow>
        let u1 = u\<lparr>u_cont_handle := h\<rparr> in
        if err \<noteq> ESP_OK then (err, u1, w1)
        else case drv_call adc_continuous_config (u_cont_handle u1) w1 of (err, w2) \<Rightarrow>
          if err \<noteq> ESP_OK then (err, u1, drv_continuous_deinit (u_cont_handle u1) w2)
          else (ESP_OK, u1\<lparr>u_continuous_initialized := True\<rparr>, w2))"

definition getContinuousHandle :: "ADCUnit \<Rightarrow> world \<Rightarrow> handle \<times> ADCUnit \<times> world" where
  "getContinuousHandle u w =
     (case ensureContinuousInitialized u w of (err, u1, w1) \<Rightarrow>
        if err = ESP_OK then (u_cont_handle u1, u1, w1) else (None, u1, w1))"

text \<open>A caller that asks for the streaming handle \<open>k\<close> times in a row: the handles it
  gets, in order, and the unit and the world afterwards.\<close>

fun getContinuousHandle_times :: "nat \<Rightarrow> ADCUnit \<Rightarrow> world \<Rightarrow> handle list \<times> ADCUnit \<times> world" where
  "getContinuousHandle_times 0 u w = ([], u, w)"
| "getContinuousHandle_times (Suc k) u w =
     (case getContinuousHandle u w of (h, u1, w1) \<Rightarrow>
        (case getContinuousHandle_times k u1 w1 of (hs, u2, w2) \<Rightarrow> (h # hs, u2, w2)))"

section \<open>ADCChannel\<close>

record ADCChannel =
  c_oneshot_handle :: handle
  c_cont_handle :: handle
  c_channel :: nat
  c_cali_handle :: handle
  c_is_initialized :: bool

record ADCReadResult =
  average_mv :: int
  min_mv :: int
  max_mv :: int
  p30_width_mv :: int
  p60_width_mv :: int

text \<open>The constructor takes the unit by pointer and calls \<^verbatim>\<open>getContinuousHandle\<close> on it in
  its initialiser list, so it returns the unit and the world as it leaves them.\<close>

definition ADCChannel_ctor ::
  "ADCUnit \<Rightarrow> nat \<Rightarrow> nat \<Rightarrow> world \<Rightarrow> ADCChannel \<times> ADCUnit \<times> world" where
  "ADCChannel_ctor u channel atten w =
     (case getContinuousHandle u w of (ch, u1, w1) \<Rightarrow>
        let c = \<lparr>c_oneshot_handle = getOneshotHandle u, c_cont_handle = ch,
                 c_channel = channel, c_cali_handle = None, c_is_initialized = False\<rparr>
        in case drv_call adc_oneshot_config_channel (c_oneshot_handle c) w1 of (err, w2) \<Rightarrow>
             if err \<noteq> ESP_OK
             then (c, u1, log_msg LOG_E ''ADCChannel - Failed to configure oneshot channel'' (Some err) w2)
             else case drv_create adc_cali_create_scheme_curve_fitting (c_cali_handle c) w2 of
               (err, h, w3) \<Rightarrow>
                 let c = c\<lparr>c_cali_handle := h\<rparr> in
                 if err \<noteq> ESP_OK
                 then (c, u1, log_msg LOG_E ''ADCChannel - Failed to create calibration scheme'' (Some err) w3)
                 else (c\<lparr>c_is_initialized := True\<rparr>, u1, w3))"

definition ADCChannel_create ::
  "ADCUnit \<Rightarrow> nat \<Rightarrow> nat \<Rightarrow> world \<Rightarrow> ADCChannel option \<times> ADCUnit \<times> world" where
  "ADCChannel_create u channel atten w =
     (case ADCChannel_ctor u channel atten w of (new_channel, u1, w1) \<Rightarrow>
        if c_is_initialized new_channel then (Some new_channel, u1, w1) else (None, u1, w1))"

subsection \<open>ADCChannel::read\<close>

text \<open>
  The loop \<^verbatim>\<open>for (int i = 0; i < sample_count; i++)\<close>, by the number of rounds left.
  Its state is the vector, the \<^verbatim>\<open>uint32_t\<close> sum (the addition of an \<^verbatim>\<open>int\<close> wraps modulo
  \<open>2 ^ 32\<close>), the minimum and the maximum. A failed read leaves the loop and the function
  with the driver's code.
\<close>

fun read_loop ::
  "ADCChannel \<Rightarrow> int \<Rightarrow> nat \<Rightarrow> int list \<times> int \<times> int \<times> int \<Rightarrow> world
     \<Rightarrow> (esp_err_t + int list \<times> int \<times> int \<times> int) \<times> world" where
  "read_loop c sample_delay_ms 0 st w = (Inr st, w)"
| "read_loop c sample_delay_ms (Suc k) (voltages, sum_mv, lo, hi) w =
     (case drv_oneshot_read (c_oneshot_handle c) w of (err, raw_reading, w1) \<Rightarrow>
        if err \<noteq> ESP_OK then (Inl err, log_msg LOG_E ''Oneshot read failed'' (Some err) w1)
        else
          let voltage = cali w1 raw_reading;
              w2 = (if sample_delay_ms > 0 then snd (drv_call vTaskDelay None w1) else w1)
          in read_loop c sample_delay_ms k
               (voltages @ [voltage], (sum_mv + voltage) mod 2 ^ 32,
                (if voltage < lo then voltage else lo),
                (if voltage > hi then voltage else hi)) w2)"

text \<open>
  \<open>None\<close> is a call that does not return: \<^verbatim>\<open>reserve\<close> of a negative count throws, and a
  count of zero divides by zero. The division is unsigned, on the \<^verbatim>\<open>uint32_t\<close> sum, and
  its quotient is stored in an \<^verbatim>\<open>int\<close>. The second percentile width is computed on the
  vector the first call has sorted.
\<close>

definition read ::
  "ADCChannel \<Rightarrow> int \<Rightarrow> int \<Rightarrow> ADCReadResult \<Rightarrow> world
     \<Rightarrow> (esp_err_t \<times> ADCReadResult \<times> world) option" where
  "read c sample_count sample_delay_ms result w =
     (if sample_count < 0 then None
      else case read_loop c sample_delay_ms (nat sample_count)
                  ([], 0, INT32_MAX, INT32_MIN) w of
        (Inl err, w1) \<Rightarrow> Some (err, result, w1)
      | (Inr (voltages, sum_mv, lo, hi), w1) \<Rightarrow>
          if sample_count = 0 then None
          else case calculatePercWidth voltages 30 of (voltages1, p30) \<Rightarrow>
               case calculatePercWidth voltages1 60 of (voltages2, p60) \<Rightarrow>
                 Some (ESP_OK,
                       result\<lparr>average_mv := wrap_i32 (sum_mv div sample_count),
                              min_mv := lo, max_mv := hi,
                              p30_width_mv := p30, p60_width_mv := p60\<rparr>,
                       w1))"

subsection \<open>ADCChannel::sampleForDuration\<close>

text \<open>One streaming record: \<^verbatim>\<open>(buffer[i + 1] << 8) | buffer[i]\<close>, both bytes promoted to
  \<^verbatim>\<open>int\<close>, then \<^verbatim>\<open>&= 0xFFF\<close>.\<close>

definition decode_sample :: "8 word \<Rightarrow> 8 word \<Rightarrow> int" where
  "decode_sample low_byte high_byte = (push_bit 8 (uint high_byte) OR uint low_byte) AND 4095"

text \<open>The loop \<^verbatim>\<open>for (size_t i = 0; i < bytes_read; i += 2)\<close>.\<close>

function decode_loop :: "(int \<Rightarrow> int) \<Rightarrow> 8 word list \<Rightarrow> nat \<Rightarrow> nat \<Rightarrow> int list \<Rightarrow> int list" where
  "decode_loop cal buffer bytes_read i voltages =
     (if i < bytes_read then
        let raw_reading = decode_sample (buffer ! i) (buffer ! (i + 1));
            voltage = cal raw_reading
        in decode_loop cal buffer bytes_read (i + 2) (voltages @ [voltage])
      else voltages)"
  by pat_completeness auto
termination
  by (relation "measure (\<lambda>(cal, buffer, bytes_read, i, voltages). bytes_read - i)") auto

text \<open>
  The elapsed time of the loop condition: \<^verbatim>\<open>(esp_timer_get_time() - start_time) / 1000\<close>
  in \<^verbatim>\<open>uint64_t\<close>, compared with the \<^verbatim>\<open>uint32_t\<close> duration.
\<close>

definition elapsed_ms :: "int \<Rightarrow> int \<Rightarrow> int" where
  "elapsed_ms now start_time = ((now - start_time) mod 2 ^ 64) div 1000"

text \<open>
  The polling loop. It ends only when the clock says so, and the clock is the
  environment's, so the loop takes fuel: \<open>None\<close> is a loop still running when the fuel is
  spent.
\<close>

fun poll_loop ::
  "nat \<Rightarrow> ADCChannel \<Rightarrow> int \<Rightarrow> nat \<Rightarrow> 8 word list \<times> int list \<times> world
     \<Rightarrow> (8 word list \<times> int list \<times> world) option" where
  "poll_loop 0 c start_time duration_ms st = None"
| "poll_loop (Suc fuel) c start_time duration_ms (buffer, voltages, w) =
     (case drv_timer_get_time w of (now, w1) \<Rightarrow>
        if elapsed_ms now start_time < int duration_ms then
          (case drv_continuous_read (c_cont_handle c) buffer 1024 w1 of
             (r, buffer1, bytes_read, w2) \<Rightarrow>
               if r = ESP_OK then
                 poll_loop fuel c start_time duration_ms
                   (buffer1, decode_loop (cali w2) buffer1 bytes_read 0 voltages, w2)
               else if r \<noteq> ESP_ERR_TIMEOUT then
                 poll_loop fuel c start_time duration_ms
                   (buffer1, voltages, log_msg LOG_W ''ADC continuous read error'' (Some r) w2)
               else poll_loop fuel c start_time duration_ms (buffer1, voltages, w2))
        else Some (buffer, voltages, w1))"

definition sampleForDuration ::
  "nat \<Rightarrow> ADCChannel \<Rightarrow> nat \<Rightarrow> world \<Rightarrow> (int list \<times> world) option" where
  "sampleForDuration fuel c duration_ms w =
     (case drv_malloc w of (buffer_is_null, w0) \<Rightarrow>
        if buffer_is_null
        then Some ([], log_msg LOG_E ''Failed to allocate ADC buffer for continuous sampling'' None w0)
        else
          let buffer = replicate 1024 (0 :: 8 word) in
          case drv_call adc_continuous_start (c_cont_handle c) w0 of (start_err, w1) \<Rightarrow>
            if start_err \<noteq> ESP_OK
            then Some ([], log_msg LOG_E ''Failed to start continuous ADC'' (Some start_err) w1)
            else case drv_timer_get_time w1 of (t, w2) \<Rightarrow>
              let start_time = t mod 2 ^ 64 in
              (case poll_loop fuel c start_time duration_ms (buffer, [], w2) of
                 None \<Rightarrow> None
               | Some (buffer1, voltages, w3) \<Rightarrow>
                   (case drv_call adc_continuous_stop (c_cont_handle c) w3 of (stop_err, w4) \<Rightarrow>
                      if stop_err \<noteq> ESP_OK
                      then Some (voltages, log_msg LOG_E ''Failed to stop continuous ADC'' (Some stop_err) w4)
                      else Some (voltages, w4))))"

section \<open>Sample sets and a mocked driver\<close>


text \<open>The records of a frame of whole records: byte \<open>2j\<close> is the low byte of record \<open>j\<close>
  and byte \<open>2j + 1\<close> its high byte.\<close>

definition frame_records :: "8 word list \<Rightarrow> int list" where
  "frame_records frame =
     map (\<lambda>j. decode_sample (frame ! (2 * j)) (frame ! (2 * j + 1))) [0..<length frame div 2]"

text \<open>
  The values a capture is to return for \<open>k\<close> streaming reads, the first of them read
  number \<open>r\<close>, on a buffer that holds \<open>buffer\<close>: each read stores its frame at the start of
  the buffer, and a read that returns \<^verbatim>\<open>ESP_OK\<close> contributes the calibrated value of the
  byte pair \<open>(2j, 2j + 1)\<close> of the buffer for each \<open>2j\<close> below the number of bytes stored,
  in order; any other read contributes nothing.
\<close>

fun stream_values :: "world \<Rightarrow> nat \<Rightarrow> nat \<Rightarrow> 8 word list \<Rightarrow> int list" where
  "stream_values w r 0 buffer = []"
| "stream_values w r (Suc k) buffer =
     (let bytes = take (min 1024 (length buffer)) (frame_of w r);
          buffer1 = bytes @ drop (length bytes) buffer
      in (if ret w adc_continuous_read r = ESP_OK
          then map (\<lambda>j. cali w (decode_sample (buffer1 ! (2 * j)) (buffer1 ! (2 * j + 1))))
                 [0..<(length bytes + 1) div 2]
          else []) @ stream_values w (Suc r) k buffer1)"

text \<open>The warnings the next \<open>k\<close> streaming reads of a world call for: one line for each
  return code that is neither \<^verbatim>\<open>ESP_OK\<close> nor \<^verbatim>\<open>ESP_ERR_TIMEOUT\<close>, in order.\<close>

definition read_warnings :: "world \<Rightarrow> nat \<Rightarrow> (log_level \<times> string \<times> esp_err_t option) list" where
  "read_warnings w k =
     map (\<lambda>e. (LOG_W, ''ADC continuous read error'', Some e))
       (filter (\<lambda>e. e \<noteq> ESP_OK \<and> e \<noteq> ESP_ERR_TIMEOUT)
          (map (ret w adc_continuous_read)
             [called adc_continuous_read w..<called adc_continuous_read w + k]))"

text \<open>
  A mocked driver for concrete runs: every call succeeds, the single-shot reads deliver
  the given raw codes in order, the calibration is the identity, the clock advances one
  millisecond per reading and no streaming data arrives. The variants below change one
  answer of the script.
\<close>

definition mock_world :: "int list \<Rightarrow> world" where
  "mock_world raws =
     \<lparr>ret = (\<lambda>f k. ESP_OK),
      raw_of = (\<lambda>k. if k < length raws then raws ! k else 0),
      cali = (\<lambda>raw. raw),
      frame_of = (\<lambda>k. []),
      time_of = (\<lambda>k. int k * 1000),
      malloc_null = (\<lambda>k. False),
      calls = [], live = [], logged = []\<rparr>"

definition failing_read_world :: "nat \<Rightarrow> int list \<Rightarrow> world" where
  "failing_read_world i raws =
     (mock_world raws)
       \<lparr>ret := (\<lambda>f k. if f = adc_oneshot_read \<and> k = i then ESP_FAIL else ESP_OK)\<rparr>"

definition failing_config_world :: world where
  "failing_config_world =
     (mock_world [])
       \<lparr>ret := (\<lambda>f k. if f = adc_continuous_config \<and> k = 0 then ESP_FAIL else ESP_OK)\<rparr>"

definition no_streaming_world :: world where
  "no_streaming_world =
     (mock_world [])
       \<lparr>ret := (\<lambda>f k. if f = adc_continuous_new_handle \<or> f = adc_continuous_start
                       then ESP_FAIL else ESP_OK)\<rparr>"

text \<open>Streaming reads: the first delivers two records, the second times out, the third
  fails, the later ones deliver nothing.\<close>

definition streaming_world :: world where
  "streaming_world =
     (mock_world [])
       \<lparr>ret := (\<lambda>f k. if f = adc_continuous_read \<and> k = 1 then ESP_ERR_TIMEOUT
                       else if f = adc_continuous_read \<and> k = 2 then ESP_FAIL
                       else ESP_OK),
        frame_of := (\<lambda>k. if k = 0 then [52, 242, 255, 15] else [])\<rparr>"

text \<open>A unit as its constructor leaves it in the mocked world.\<close>

definition mock_unit :: ADCUnit where
  "mock_unit =
     \<lparr>u_is_initialized = True, u_unit_id = 0, u_cont_handle = None,
      u_continuous_initialized = False, u_oneshot_handle = Some 1\<rparr>"

definition mock_channel :: ADCChannel where
  "mock_channel =
     \<lparr>c_oneshot_handle = Some 1, c_cont_handle = Some 2, c_channel = 0,
      c_cali_handle = Some 3, c_is_initialized = True\<rparr>"

definition zero_result :: ADCReadResult where
  "zero_result =
     \<lparr>average_mv = 0, min_mv = 0, max_mv = 0, p30_width_mv = 0, p60_width_mv = 0\<rparr>"

section \<open>The single precision model\<close>

text \<open>\<open>binade x\<close> is the exponent of the leading bit of a positive \<open>x\<close>.\<close>

declare bit_length.simps [simp del]

lemma bit_length_bounds: "0 < n \<Longrightarrow> 2 ^ (bit_length n - 1) \<le> n \<and> n < 2 ^ bit_length n"
proof (induction n rule: bit_length.induct)
  case (1 n)
  show ?case
  proof (cases "n div 2 = 0")
    case True
    with "1.prems" have "n = 1" by arith
    then show ?thesis by (simp add: bit_length.simps)
  next
    case False
    then have pos: "0 < n div 2" by simp
    from "1.IH" [OF _ pos] "1.prems"
    have ih: "2 ^ (bit_length (n div 2) - 1) \<le> n div 2 \<and> n div 2 < 2 ^ bit_length (n div 2)"
      by simp
    have bl: "bit_length n = Suc (bit_length (n div 2))"
      using "1.prems" by (subst bit_length.simps) simp
    have "0 < bit_length (n div 2)"
      using pos by (subst bit_length.simps) simp
    then obtain k where k: "bit_length (n div 2) = Suc k"
      by (cases "bit_length (n div 2)") auto
    from ih show ?thesis
      unfolding bl k by (simp) arith
  qed
qed

lemma pow2_pos: "0 < pow2 e"
  by (simp add: pow2_def)

lemma pow2_powi: "pow2 e = 2 powi e"
  by (simp add: pow2_def power_int_def field_simps)

lemma pow2_add: "pow2 (a + b) = pow2 a * pow2 b"
  by (simp add: pow2_powi power_int_add)

lemma pow2_nat: "pow2 (int k) = 2 ^ k"
  by (simp add: pow2_def)

lemma pow2_neg_nat: "pow2 (- int k) = 1 / 2 ^ k"
  by (simp add: pow2_powi power_int_minus field_simps)

lemma of_nat_pow2_le: "2 ^ k \<le> n \<Longrightarrow> (2 :: rat) ^ k \<le> of_nat n"
proof -
  assume "2 ^ k \<le> n"
  then have "(of_nat (2 ^ k) :: rat) \<le> of_nat n"
    by (simp only: of_nat_le_iff)
  then show ?thesis by simp
qed

lemma of_nat_less_pow2: "n < 2 ^ k \<Longrightarrow> (of_nat n :: rat) + 1 \<le> 2 ^ k"
proof -
  assume "n < 2 ^ k"
  then have "Suc n \<le> 2 ^ k" by simp
  then have "(of_nat (Suc n) :: rat) \<le> of_nat (2 ^ k)"
    by (simp only: of_nat_le_iff)
  then show ?thesis by simp
qed

lemma binade_bounds:
  assumes "0 < x"
  shows "pow2 (binade x) \<le> x \<and> x < pow2 (binade x + 1)"
proof (cases "1 \<le> x")
  case True
  define n where "n = nat \<lfloor>x\<rfloor>"
  have n: "0 < n" using True by (simp add: n_def)
  have "of_int \<lfloor>x\<rfloor> \<le> x" "x < of_int \<lfloor>x\<rfloor> + 1"
    by linarith+
  moreover have "(of_nat n :: rat) = of_int \<lfloor>x\<rfloor>"
    using True by (simp add: n_def)
  ultimately have fl: "of_nat n \<le> x" "x < of_nat n + 1"
    by simp_all
  from bit_length_bounds [OF n] obtain k where k: "bit_length n = Suc k"
    and lo: "2 ^ k \<le> n" and hi: "n < 2 ^ Suc k"
    by (cases "bit_length n") auto
  have b: "binade x = int k"
    using True by (simp add: binade_def n_def [symmetric] k)
  have b1: "binade x + 1 = int (Suc k)"
    using b by simp
  from of_nat_pow2_le [OF lo] of_nat_less_pow2 [OF hi] fl
  have "2 ^ k \<le> x" "x < 2 ^ Suc k"
    by linarith+
  then show ?thesis
    unfolding b1 unfolding b pow2_nat by simp
next
  case False
  define y where "y = 1 / x"
  define m where "m = nat (\<lceil>y\<rceil> - 1)"
  have y1: "1 < y" using False assms by (simp add: y_def)
  then have c: "2 \<le> \<lceil>y\<rceil>" by (simp add: le_ceiling_iff)
  then have m: "0 < m" by (simp add: m_def)
  have "of_int \<lceil>y\<rceil> - 1 < y" "y \<le> of_int \<lceil>y\<rceil>"
    by linarith+
  moreover have "(of_nat m :: rat) = of_int \<lceil>y\<rceil> - 1"
    using c by (simp add: m_def)
  ultimately have ym: "of_nat m < y" "y \<le> of_nat m + 1"
    by simp_all
  from bit_length_bounds [OF m] obtain k where k: "bit_length m = Suc k"
    and lo: "2 ^ k \<le> m" and hi: "m < 2 ^ Suc k"
    by (cases "bit_length m") auto
  have b: "binade x = - int (Suc k)"
    using False by (simp add: binade_def y_def [symmetric] m_def [symmetric] k)
  have b1: "binade x + 1 = - int k" using b by simp
  from of_nat_pow2_le [OF lo] of_nat_less_pow2 [OF hi] ym
  have "2 ^ k < y" "y \<le> 2 ^ Suc k"
    by linarith+
  then have "1 / 2 ^ Suc k \<le> x" "x < 1 / 2 ^ k"
    using assms unfolding y_def by (simp_all add: field_simps)
  then show ?thesis
    unfolding b1 unfolding b pow2_neg_nat by simp
qed

lemma round_half_even_error: "\<bar>of_int (round_half_even y) - y\<bar> \<le> 1 / 2"
proof -
  define d where "d = y - of_int \<lfloor>y\<rfloor>"
  have d: "0 \<le> d" "d < 1"
    unfolding d_def by linarith+
  have "(of_int (round_half_even y) - y = - d \<and> d \<le> 1 / 2) \<or>
        (of_int (round_half_even y) - y = 1 - d \<and> 1 / 2 \<le> d)"
    by (auto simp: round_half_even_def Let_def d_def)
  then show ?thesis
    using d by (auto simp: abs_if)
qed

text \<open>The value \<open>f32_round\<close> returns has a 24-bit significand in the binade of its
  argument (or is the next power of two), and it lies within half a unit in the last place
  of the argument.\<close>

lemma f32_round_nearest:
  assumes "0 < x"
  shows "\<exists>m. f32_round x = of_int m * pow2 (binade x - 23) \<and> 2 ^ 23 \<le> m \<and> m \<le> 2 ^ 24 \<and>
            \<bar>f32_round x - x\<bar> \<le> pow2 (binade x - 24)"
proof -
  define e where "e = binade x"
  define s where "s = x * pow2 (23 - e)"
  define m where "m = round_half_even s"
  have f: "f32_round x = of_int m * pow2 (e - 23)"
    using assms by (simp add: f32_round_def Let_def e_def s_def m_def)
  have u: "pow2 (23 - e) * pow2 (e - 23) = 1"
    using pow2_add [of "23 - e" "e - 23"] by (simp add: pow2_def)
  have xs: "x = s * pow2 (e - 23)"
    using u by (simp add: s_def mult.assoc)
  have p: "pow2 (binade x) * pow2 (23 - e) = 2 ^ 23" "pow2 (binade x + 1) * pow2 (23 - e) = 2 ^ 24"
    using pow2_add [of e "23 - e"] pow2_add [of "e + 1" "23 - e"]
    by (simp_all add: e_def pow2_def)
  have sb: "2 ^ 23 \<le> s" "s < 2 ^ 24"
  proof -
    from binade_bounds [OF assms]
    have "pow2 (binade x) * pow2 (23 - e) \<le> x * pow2 (23 - e)"
      and "x * pow2 (23 - e) < pow2 (binade x + 1) * pow2 (23 - e)"
      using pow2_pos [of "23 - e"] by simp_all
    then show "2 ^ 23 \<le> s" "s < 2 ^ 24"
      unfolding p s_def by simp_all
  qed
  have err: "\<bar>of_int m - s\<bar> \<le> 1 / 2"
    unfolding m_def by (rule round_half_even_error)
  have mb: "2 ^ 23 \<le> m \<and> m \<le> 2 ^ 24"
  proof -
    from err have "of_int m - s \<le> 1 / 2" "s - of_int m \<le> 1 / 2"
      by (simp_all only: abs_le_iff minus_diff_eq)
    with sb have "(2 :: rat) ^ 23 - 1 / 2 \<le> of_int m" "of_int m < (2 :: rat) ^ 24 + 1 / 2"
      by linarith+
    then have "(of_int (2 ^ 23 - 1) :: rat) < of_int m" "(of_int m :: rat) < of_int (2 ^ 24 + 1)"
      by simp_all
    then have "2 ^ 23 - 1 < m" "m < 2 ^ 24 + 1"
      by (simp_all only: of_int_less_iff)
    then show ?thesis by simp
  qed
  have h: "pow2 (e - 24) = pow2 (e - 23) * (1 / 2)"
    using pow2_add [of "e - 23" "- 1"] by (simp add: pow2_def)
  have "(of_int m - s) * pow2 (e - 23) = of_int m * pow2 (e - 23) - s * pow2 (e - 23)"
    by (simp add: algebra_simps)
  then have "f32_round x - x = (of_int m - s) * pow2 (e - 23)"
    unfolding f xs [symmetric] by simp
  then have "\<bar>f32_round x - x\<bar> = \<bar>of_int m - s\<bar> * pow2 (e - 23)"
    using pow2_pos [of "e - 23"] by (simp add: abs_mult)
  also have "\<dots> \<le> (1 / 2) * pow2 (e - 23)"
    using err pow2_pos [of "e - 23"] by (intro mult_right_mono) simp_all
  finally have "\<bar>f32_round x - x\<bar> \<le> pow2 (e - 24)"
    unfolding h by (simp add: mult.commute)
  with f mb show ?thesis
    unfolding e_def by blast
qed

text \<open>Values of the format, and two ties: \<open>0.1f\<close>, \<open>0.3f\<close>, \<open>1.0f / 3.0f\<close>, and
  \<open>1 + 2^-24\<close> and \<open>1 + 3 * 2^-24\<close>, which lie halfway between two neighbours and go to
  the one with the even significand.\<close>

lemma f32_round_values:
  "f32_round (1 / 10) = 13421773 / 134217728"
  "f32_round (3 / 10) = 5033165 / 16777216"
  "f32_round (1 / 3) = 11184811 / 33554432"
  "f32_round (16777217 / 16777216) = 1"
  "f32_round (16777219 / 16777216) = 4194305 / 4194304"
  by code_simp+

section \<open>Properties of calculatePercWidth\<close>

text \<open>For a percentile in range and a vector that is not empty, the function sorts the
  vector and returns the wrapped difference of the values at the two indices, which both
  lie inside the vector.\<close>

lemma code_index_bounds:
  "0 < n \<Longrightarrow> code_lower_index n p < n \<and> code_upper_index n p < n"
proof -
  assume n: "0 < n"
  have "code_lower_index n p \<le> n - 1" "code_upper_index n p \<le> n - 1"
    by (simp_all add: code_lower_index_def code_upper_index_def)
  with n show ?thesis by arith
qed

lemma calculatePercWidth_indices:
  assumes "10 \<le> p" and "p \<le> 90" and "data \<noteq> []"
  shows "calculatePercWidth data p =
           (sort data,
            wrap_i32 (sort data ! code_upper_index (length data) p -
                      sort data ! code_lower_index (length data) p)) \<and>
         code_lower_index (length data) p < length data \<and>
         code_upper_index (length data) p < length data"
proof -
  have "calculatePercWidth data p =
           (sort data,
            wrap_i32 (sort data ! code_upper_index (length data) p -
                      sort data ! code_lower_index (length data) p))"
    using assms
    by (simp add: calculatePercWidth_def code_lower_index_def code_upper_index_def Let_def)
  moreover have "0 < length data"
    using assms by simp
  ultimately show ?thesis
    using code_index_bounds by blast
qed

text \<open>
  Claim C7. Whatever the sequence, a percentile below 10 or above 90 gives the width 0,
  and so does an empty sequence at every percentile. The function returns in both cases,
  and it leaves the vector as it was.
\<close>

theorem calculatePercWidth_zero:
  "percentile < 10 \<or> percentile > 90 \<or> data = [] \<Longrightarrow>
   calculatePercWidth data percentile = (data, 0)"
  by (auto simp: calculatePercWidth_def)

theorem calculatePercWidth_zero_witness:
  "calculatePercWidth [3, 1, 2] 9 = ([3, 1, 2], 0) \<and>
   calculatePercWidth [3, 1, 2] 91 = ([3, 1, 2], 0) \<and>
   calculatePercWidth [] 50 = ([], 0)"
  using calculatePercWidth_zero [of 9 "[3, 1, 2]"] calculatePercWidth_zero [of 91 "[3, 1, 2]"]
    calculatePercWidth_zero [of 50 "[]"]
  by simp

text \<open>
  The single precision values behind the next two results: \<open>0.6f\<close> lies above \<open>0.6\<close>,
  \<open>1.0f - 0.6f\<close> is exact and lies below \<open>0.4\<close>, and five times it is \<open>2 - 2^-23\<close>, a
  \<^verbatim>\<open>float\<close> itself, which truncates to 1.
\<close>

lemma f32_six_tenths: "f32_round (60 / 100) = 5033165 / 8388608"
  by code_simp

lemma f32_one_minus_six_tenths: "f32_round (1 - f32_round (60 / 100)) = 3355443 / 8388608"
  by code_simp

lemma f32_upper_product:
  "f32_round (f32_round 5 * f32_round (1 - f32_round (60 / 100))) = 16777215 / 8388608"
  by code_simp

text \<open>
  Claim C1. The claim's upper index is \<open>truncate ((n - 1) * (1 - p / 100))\<close>. On six
  samples at \<open>p = 60\<close> that is \<open>truncate (5 * 0.4) = 2\<close>, and the width by the claim is
  \<open>300 - 400 = -100\<close>. The code multiplies in single precision, gets the index 1 and
  returns \<open>200 - 400 = -200\<close>.
\<close>

theorem calculatePercWidth_float_truncation:
  "snd (calculatePercWidth [100, 200, 300, 400, 500, 600] 60) = - 200 \<and>
   code_lower_index 6 60 = 3 \<and> code_upper_index 6 60 = 1 \<and>
   spec_percWidth [100, 200, 300, 400, 500, 600] 60 = - 100 \<and>
   spec_lower_index 6 60 = 3 \<and> spec_upper_index 6 60 = 2"
  by code_simp

text \<open>
  Claim C3. The width is not always non-negative: at \<open>p = 60\<close>, the percentile \<^verbatim>\<open>read\<close>
  passes, the lower index lies above the upper one and five distinct samples give \<open>-100\<close>.
  Nor do \<open>p\<close> and \<open>100 - p\<close> always name the same pair of indices: on six samples the
  indices are 2 and 3 at 40, and 3 and 1 at 60.
\<close>

theorem calculatePercWidth_negative_width:
  "snd (calculatePercWidth [100, 200, 300, 400, 500] 60) = - 100 \<and>
   code_lower_index 5 60 = 2 \<and> code_upper_index 5 60 = 1 \<and>
   code_lower_index 6 40 = 2 \<and> code_upper_index 6 40 = 3 \<and>
   code_lower_index 6 60 = 3 \<and> code_upper_index 6 60 = 1"
  by code_simp

section \<open>Properties of read\<close>

subsection \<open>The driver's bookkeeping\<close>

lemma called_logged_update [simp]: "called g (w\<lparr>logged := l\<rparr>) = called g w"
  by (simp add: called_def)

lemma called_live_update [simp]: "called g (w\<lparr>live := l\<rparr>) = called g w"
  by (simp add: called_def)



subsection \<open>The sampling loop\<close>

text \<open>If the reads before the \<open>i\<close>-th succeed and the \<open>i\<close>-th fails, the loop stops there
  with the driver's code, whatever it had accumulated.\<close>

lemma read_loop_fail:
  "(\<forall>j<i. ret w adc_oneshot_read (called adc_oneshot_read w + j) = ESP_OK) \<Longrightarrow>
   ret w adc_oneshot_read (called adc_oneshot_read w + i) = e \<Longrightarrow> e \<noteq> ESP_OK \<Longrightarrow> i < k \<Longrightarrow>
   \<exists>w'. read_loop c d k st w = (Inl e, w') \<and>
        called adc_oneshot_read w' = called adc_oneshot_read w + Suc i"
proof (induction k arbitrary: i st w)
  case 0
  then show ?case by simp
next
  case (Suc k)
  obtain vs s lo hi where st: "st = (vs, s, lo, hi)" by (cases st)
  show ?case
  proof (cases i)
    case 0
    with Suc.prems st show ?thesis
      by (simp add: drv_oneshot_read_def drv_call_def log_msg_def called_def)
  next
    case (Suc i')
    define w1 where "w1 = w\<lparr>calls := calls w @ [(adc_oneshot_read, c_oneshot_handle c)]\<rparr>"
    define w2 where "w2 = (if d > 0 then snd (drv_call vTaskDelay None w1) else w1)"
    define v where "v = cali w (raw_of w (called adc_oneshot_read w))"
    have c2: "called adc_oneshot_read w2 = Suc (called adc_oneshot_read w)"
      and r2: "ret w2 = ret w"
      by (simp_all add: w2_def w1_def drv_call_def called_def)
    have ok0: "ret w adc_oneshot_read (called adc_oneshot_read w) = ESP_OK"
      using Suc.prems(1) Suc by force
    have step: "read_loop c d (Suc k) (vs, s, lo, hi) w =
        read_loop c d k (vs @ [v], (s + v) mod 2 ^ 32,
          (if v < lo then v else lo), (if v > hi then v else hi)) w2"
      using ok0 by (simp add: drv_oneshot_read_def drv_call_def Let_def w1_def w2_def v_def)
    have a: "\<forall>j<i'. ret w2 adc_oneshot_read (called adc_oneshot_read w2 + j) = ESP_OK"
      using Suc.prems(1) Suc by (simp add: c2 r2) (metis Suc_less_eq add_Suc_right)
    have b: "ret w2 adc_oneshot_read (called adc_oneshot_read w2 + i') = e"
      using Suc.prems(2) Suc by (simp add: c2 r2)
    have "i' < k" using Suc.prems(4) Suc by simp
    from Suc.IH [OF a b Suc.prems(3) this] show ?thesis
      unfolding st step c2 Suc by simp
  qed
qed


text \<open>
  Claim C2. A count of at least one, and the \<open>k\<close>-th read (\<open>1 \<le> k \<le> n\<close>) the first to
  fail, with the code \<open>e\<close>: the call returns \<open>e\<close> after exactly \<open>k\<close> reads, and the result
  it hands back is the one it was given, for every delay.
\<close>

theorem read_failure_keeps_result:
  assumes "1 \<le> k" and "k \<le> n"
    and "\<forall>j<k - 1. ret w adc_oneshot_read (called adc_oneshot_read w + j) = ESP_OK"
    and "ret w adc_oneshot_read (called adc_oneshot_read w + (k - 1)) = e"
    and "e \<noteq> ESP_OK"
  shows "\<exists>w'. read c (int n) d result w = Some (e, result, w') \<and>
              called adc_oneshot_read w' = called adc_oneshot_read w + k"
proof -
  have "k - 1 < n" using assms(1,2) by simp
  from read_loop_fail [OF assms(3) assms(4) assms(5) this, of c d "([], 0, INT32_MAX, INT32_MIN)"]
  obtain w' where "read_loop c d n ([], 0, INT32_MAX, INT32_MIN) w = (Inl e, w')"
    and "called adc_oneshot_read w' = called adc_oneshot_read w + Suc (k - 1)"
    by blast
  with assms(1) show ?thesis by (simp add: read_def)
qed

theorem read_failure_keeps_result_witness:
  "\<exists>w'. read mock_channel 5 0 zero_result (failing_read_world 2 [100, 200, 300, 400, 500]) =
           Some (ESP_FAIL, zero_result, w') \<and> called adc_oneshot_read w' = 3"
  using read_failure_keeps_result [of 3 5 "failing_read_world 2 [100, 200, 300, 400, 500]"
      ESP_FAIL mock_channel 0 zero_result]
  by (simp add: failing_read_world_def mock_world_def ESP_FAIL_def ESP_OK_def called_def)

subsection \<open>A successful read\<close>






lemma sum_list_bounds:
  assumes "\<forall>v\<in>set xs. 0 \<le> v \<and> v \<le> (b :: int)"
  shows "0 \<le> sum_list xs \<and> sum_list xs \<le> int (length xs) * b"
  using assms by (induction xs) (auto simp: algebra_simps)




















subsection \<open>The delays of a read\<close>

text \<open>With a positive delay a successful read of \<open>n\<close> samples calls \<^verbatim>\<open>vTaskDelay\<close> \<open>n\<close>
  times: after every sample, the last one included.\<close>

lemma read_loop_delays:
  "(\<forall>j<k. ret w adc_oneshot_read (called adc_oneshot_read w + j) = ESP_OK) \<Longrightarrow>
   called vTaskDelay (snd (read_loop c d k st w)) =
     called vTaskDelay w + (if d > 0 then k else 0)"
proof (induction k arbitrary: st w)
  case 0
  then show ?case by simp
next
  case (Suc k)
  obtain vs s lo hi where st: "st = (vs, s, lo, hi)" by (cases st)
  define w1 where "w1 = w\<lparr>calls := calls w @ [(adc_oneshot_read, c_oneshot_handle c)]\<rparr>"
  define w2 where "w2 = (if d > 0 then snd (drv_call vTaskDelay None w1) else w1)"
  define v where "v = cali w (raw_of w (called adc_oneshot_read w))"
  have c2: "called adc_oneshot_read w2 = Suc (called adc_oneshot_read w)"
    and r2: "ret w2 = ret w"
    and d2: "called vTaskDelay w2 = called vTaskDelay w + (if d > 0 then 1 else 0)"
    by (simp_all add: w2_def w1_def drv_call_def called_def)
  have ok0: "ret w adc_oneshot_read (called adc_oneshot_read w) = ESP_OK"
    using Suc.prems by force
  have a: "\<forall>j<k. ret w2 adc_oneshot_read (called adc_oneshot_read w2 + j) = ESP_OK"
    using Suc.prems by (simp add: c2 r2) (metis Suc_less_eq add_Suc_right)
  have step: "read_loop c d (Suc k) (vs, s, lo, hi) w =
      read_loop c d k (vs @ [v], (s + v) mod 2 ^ 32,
        (if v < lo then v else lo), (if v > hi then v else hi)) w2"
    using ok0 by (simp add: drv_oneshot_read_def drv_call_def Let_def w1_def w2_def v_def)
  show ?case
    unfolding st step Suc.IH [OF a] d2 by simp
qed

lemma read_world:
  "read c sample_count d result w = Some (e, r, w') \<Longrightarrow>
   w' = snd (read_loop c d (nat sample_count) ([], 0, INT32_MAX, INT32_MIN) w)"
  by (auto simp: read_def split: if_splits prod.splits sum.splits)

lemma read_delays_after_every_sample:
  assumes "\<forall>j<n. ret w adc_oneshot_read (called adc_oneshot_read w + j) = ESP_OK"
    and "read c (int n) d result w = Some (e, r, w')"
  shows "called vTaskDelay w' = called vTaskDelay w + (if d > 0 then n else 0)"
  using read_world [OF assms(2)] read_loop_delays [OF assms(1)] by simp

section \<open>Properties of ADCUnit\<close>

text \<open>\<^verbatim>\<open>ADCUnit::create\<close> makes one driver call. It returns no unit exactly when that call
  fails, and a unit it returns has its single-shot handle and no streaming handle yet.\<close>

lemma ADCUnit_create_result:
  "(fst (ADCUnit_create unit_id w) = None) =
     (ret w adc_oneshot_new_unit (called adc_oneshot_new_unit w) \<noteq> ESP_OK) \<and>
   calls (snd (ADCUnit_create unit_id w)) = calls w @ [(adc_oneshot_new_unit, None)] \<and>
   live (snd (ADCUnit_create unit_id w)) = live w"
  by (simp add: ADCUnit_create_def ADCUnit_ctor_def drv_create_def drv_call_def Let_def
      log_msg_def)

lemma ADCUnit_create_fresh:
  "fst (ADCUnit_create unit_id w) = Some u \<Longrightarrow>
   u_is_initialized u \<and> \<not> u_continuous_initialized u \<and> u_cont_handle u = None \<and>
   u_oneshot_handle u \<noteq> None \<and> u_unit_id u = unit_id"
  by (auto simp: ADCUnit_create_def ADCUnit_ctor_def drv_create_def drv_call_def Let_def
      log_msg_def split: if_splits)

lemma getContinuousHandle_initialized:
  "getContinuousHandle u w = (Some h, u1, w1) \<Longrightarrow>
   u_continuous_initialized u1 \<and> u_cont_handle u1 = Some h"
  by (auto simp: getContinuousHandle_def ensureContinuousInitialized_def Let_def
      split: prod.splits if_splits)

lemma getContinuousHandle_cached_once:
  "u_continuous_initialized u \<Longrightarrow> getContinuousHandle u w = (u_cont_handle u, u, w)"
  by (simp add: getContinuousHandle_def ensureContinuousInitialized_def)

lemma getContinuousHandle_times_cached:
  "u_continuous_initialized u \<Longrightarrow>
   getContinuousHandle_times k u w = (replicate k (u_cont_handle u), u, w)"
  by (induction k) (simp_all add: getContinuousHandle_cached_once replicate_append_same)

lemma getContinuousHandle_first:
  assumes "\<not> u_continuous_initialized u"
    and "ret w adc_continuous_new_handle (called adc_continuous_new_handle w) = ESP_OK"
    and "ret w adc_continuous_config (called adc_continuous_config w) = ESP_OK"
  shows "\<exists>h u1 w1. getContinuousHandle u w = (Some h, u1, w1) \<and>
           calls w1 = calls w @ [(adc_continuous_new_handle, None), (adc_continuous_config, Some h)] \<and>
           live w1 = h # live w"
  using assms
  by (simp add: getContinuousHandle_def ensureContinuousInitialized_def Let_def
      drv_continuous_new_handle_def drv_create_def drv_call_def called_def)

lemma getContinuousHandle_failed:
  "fst (ensureContinuousInitialized u w) \<noteq> ESP_OK \<Longrightarrow> fst (getContinuousHandle u w) = None"
  by (auto simp: getContinuousHandle_def split: prod.splits)

lemmas mock_defs =
  mock_world_def failing_config_world_def no_streaming_world_def mock_unit_def
  ESP_OK_def ESP_FAIL_def

lemmas unit_defs =
  getContinuousHandle_def ensureContinuousInitialized_def drv_continuous_new_handle_def
  drv_create_def drv_call_def drv_continuous_deinit_def called_def Let_def

lemma ADCUnit_create_mock: "fst (ADCUnit_create 0 (mock_world [])) = Some mock_unit"
  by (simp add: ADCUnit_create_def ADCUnit_ctor_def drv_create_def drv_call_def called_def
      Let_def mock_defs)

lemma ensure_failure_cases:
  assumes "ensureContinuousInitialized u w = (err, u1, w1)" and "err \<noteq> ESP_OK"
  shows "\<not> u_continuous_initialized u \<and> \<not> u_continuous_initialized u1 \<and>
         live w1 = live w \<and>
         u_oneshot_handle u1 = u_oneshot_handle u \<and> u_is_initialized u1 = u_is_initialized u \<and>
         u_unit_id u1 = u_unit_id u \<and>
         ret w1 = ret w \<and>
         (if ret w adc_continuous_new_handle (called adc_continuous_new_handle w) = ESP_OK
          then \<exists>h. calls w1 = calls w @ [(adc_continuous_new_handle, None),
                     (adc_continuous_config, Some h), (adc_continuous_deinit, Some h)]
          else calls w1 = calls w @ [(adc_continuous_new_handle, None)])"
  using assms
  by (auto simp: ensureContinuousInitialized_def Let_def drv_continuous_new_handle_def
      drv_create_def drv_call_def drv_continuous_deinit_def called_def ESP_OK_def
      split: if_splits)

text \<open>A failing driver step is what the function reports: the code of
  \<^verbatim>\<open>adc_continuous_new_handle\<close> if that fails, the code of \<^verbatim>\<open>adc_continuous_config\<close>
  otherwise.\<close>

lemma ensure_driver_failure:
  assumes "\<not> u_continuous_initialized u"
    and "ret w adc_continuous_new_handle (called adc_continuous_new_handle w) \<noteq> ESP_OK \<or>
         ret w adc_continuous_config (called adc_continuous_config w) \<noteq> ESP_OK"
  shows "fst (ensureContinuousInitialized u w) =
           (if ret w adc_continuous_new_handle (called adc_continuous_new_handle w) \<noteq> ESP_OK
            then ret w adc_continuous_new_handle (called adc_continuous_new_handle w)
            else ret w adc_continuous_config (called adc_continuous_config w))"
  using assms by (auto simp: unit_defs)

lemma getContinuousHandle_after_failure:
  assumes "\<not> u_continuous_initialized u"
    and "ret w adc_continuous_new_handle (called adc_continuous_new_handle w) \<noteq> ESP_OK \<or>
         ret w adc_continuous_config (called adc_continuous_config w) \<noteq> ESP_OK"
  shows "\<exists>u1 w1. getContinuousHandle u w = (None, u1, w1) \<and>
           ensureContinuousInitialized u w = (fst (ensureContinuousInitialized u w), u1, w1) \<and>
           fst (ensureContinuousInitialized u w) \<noteq> ESP_OK \<and>
           (\<forall>w2. ret w2 adc_continuous_new_handle (called adc_continuous_new_handle w2) = ESP_OK \<and>
                 ret w2 adc_continuous_config (called adc_continuous_config w2) = ESP_OK \<longrightarrow>
                 (\<exists>h u2 w3. getContinuousHandle u1 w2 = (Some h, u2, w3) \<and>
                    calls w3 = calls w2 @ [(adc_continuous_new_handle, None),
                                           (adc_continuous_config, Some h)]))"
proof -
  obtain err u1 w1 where e: "ensureContinuousInitialized u w = (err, u1, w1)"
    by (cases "ensureContinuousInitialized u w") auto
  have ne: "err \<noteq> ESP_OK"
    using ensure_driver_failure [OF assms] assms(2) e by (auto split: if_splits)
  from ensure_failure_cases [OF e ne] have f: "\<not> u_continuous_initialized u1"
    by simp
  have g: "getContinuousHandle u w = (None, u1, w1)"
    using e ne by (simp add: getContinuousHandle_def)
  have "\<exists>h u2 w3. getContinuousHandle u1 w2 = (Some h, u2, w3) \<and>
          calls w3 = calls w2 @ [(adc_continuous_new_handle, None), (adc_continuous_config, Some h)]"
    if "ret w2 adc_continuous_new_handle (called adc_continuous_new_handle w2) = ESP_OK \<and>
        ret w2 adc_continuous_config (called adc_continuous_config w2) = ESP_OK" for w2
    using getContinuousHandle_first [OF f, of w2] that by blast
  with g e ne show ?thesis by auto
qed

text \<open>
  Claim C4, as the code has it. On a unit that has no streaming handle yet, a call whose
  two driver steps succeed allocates and configures the handle and returns it, and every
  later call returns that same handle and leaves the unit and the world as they are: no
  driver function is called again. The same holds after any call that has returned a
  handle, so the handle is provisioned at most once. A call in which
  \<^verbatim>\<open>adc_continuous_new_handle\<close> or \<^verbatim>\<open>adc_continuous_config\<close> fails returns the null
  handle, and a later call provisions again.
\<close>

theorem getContinuousHandle_provisions_once:
  "(\<not> u_continuous_initialized u \<and>
    ret w adc_continuous_new_handle (called adc_continuous_new_handle w) = ESP_OK \<and>
    ret w adc_continuous_config (called adc_continuous_config w) = ESP_OK \<longrightarrow>
      (\<exists>h' u' w'. getContinuousHandle u w = (Some h', u', w') \<and>
         calls w' = calls w @ [(adc_continuous_new_handle, None), (adc_continuous_config, Some h')] \<and>
         live w' = h' # live w \<and>
         (\<forall>n v. getContinuousHandle_times n u' v = (replicate n (Some h'), u', v)))) \<and>
   (getContinuousHandle u w = (Some h, u1, w1) \<longrightarrow>
      getContinuousHandle_times k u1 w2 = (replicate k (Some h), u1, w2)) \<and>
   (\<not> u_continuous_initialized u \<and>
    (ret w adc_continuous_new_handle (called adc_continuous_new_handle w) \<noteq> ESP_OK \<or>
     ret w adc_continuous_config (called adc_continuous_config w) \<noteq> ESP_OK) \<longrightarrow>
      (\<exists>u' w'. getContinuousHandle u w = (None, u', w') \<and>
         (\<forall>v. ret v adc_continuous_new_handle (called adc_continuous_new_handle v) = ESP_OK \<and>
              ret v adc_continuous_config (called adc_continuous_config v) = ESP_OK \<longrightarrow>
              (\<exists>h' u'' v'. getContinuousHandle u' v = (Some h', u'', v') \<and>
                 calls v' = calls v @ [(adc_continuous_new_handle, None),
                                       (adc_continuous_config, Some h')]))))"
proof (intro conjI impI)
  assume a: "\<not> u_continuous_initialized u \<and>
    ret w adc_continuous_new_handle (called adc_continuous_new_handle w) = ESP_OK \<and>
    ret w adc_continuous_config (called adc_continuous_config w) = ESP_OK"
  then obtain h' u' w' where g: "getContinuousHandle u w = (Some h', u', w')"
    and c: "calls w' = calls w @ [(adc_continuous_new_handle, None), (adc_continuous_config, Some h')]"
    and l: "live w' = h' # live w"
    using getContinuousHandle_first [of u w] by blast
  from getContinuousHandle_initialized [OF g]
  have "getContinuousHandle_times n u' v = (replicate n (Some h'), u', v)" for n v
    using getContinuousHandle_times_cached [of u' n v] by simp
  with g c l show "\<exists>h' u' w'. getContinuousHandle u w = (Some h', u', w') \<and>
         calls w' = calls w @ [(adc_continuous_new_handle, None), (adc_continuous_config, Some h')] \<and>
         live w' = h' # live w \<and>
         (\<forall>n v. getContinuousHandle_times n u' v = (replicate n (Some h'), u', v))"
    by blast
next
  assume "getContinuousHandle u w = (Some h, u1, w1)"
  from getContinuousHandle_initialized [OF this]
  show "getContinuousHandle_times k u1 w2 = (replicate k (Some h), u1, w2)"
    using getContinuousHandle_times_cached [of u1 k w2] by simp
next
  assume a: "\<not> u_continuous_initialized u \<and>
    (ret w adc_continuous_new_handle (called adc_continuous_new_handle w) \<noteq> ESP_OK \<or>
     ret w adc_continuous_config (called adc_continuous_config w) \<noteq> ESP_OK)"
  then show "\<exists>u' w'. getContinuousHandle u w = (None, u', w') \<and>
         (\<forall>v. ret v adc_continuous_new_handle (called adc_continuous_new_handle v) = ESP_OK \<and>
              ret v adc_continuous_config (called adc_continuous_config v) = ESP_OK \<longrightarrow>
              (\<exists>h' u'' v'. getContinuousHandle u' v = (Some h', u'', v') \<and>
                 calls v' = calls v @ [(adc_continuous_new_handle, None),
                                       (adc_continuous_config, Some h')]))"
    using getContinuousHandle_after_failure [of u w] by blast
qed

theorem getContinuousHandle_provisions_once_witness:
  "fst (getContinuousHandle mock_unit (mock_world [])) = Some 1 \<and>
   calls (snd (snd (getContinuousHandle mock_unit (mock_world [])))) =
     [(adc_continuous_new_handle, None), (adc_continuous_config, Some 1)] \<and>
   getContinuousHandle_times 3 (fst (snd (getContinuousHandle mock_unit (mock_world []))))
       (snd (snd (getContinuousHandle mock_unit (mock_world [])))) =
     ([Some 1, Some 1, Some 1], snd (getContinuousHandle mock_unit (mock_world []))) \<and>
   fst (getContinuousHandle mock_unit no_streaming_world) = None \<and>
   fst (getContinuousHandle mock_unit failing_config_world) = None"
proof -
  define u1 where "u1 = fst (snd (getContinuousHandle mock_unit (mock_world [])))"
  define w1 where "w1 = snd (snd (getContinuousHandle mock_unit (mock_world [])))"
  have h: "fst (getContinuousHandle mock_unit (mock_world [])) = Some 1"
    by (simp add: unit_defs mock_defs)
  have e: "getContinuousHandle mock_unit (mock_world []) = (Some 1, u1, w1)"
    using h by (simp add: u1_def w1_def prod_eq_iff)
  have p: "\<not> u_continuous_initialized mock_unit \<and>
    ret (mock_world []) adc_continuous_new_handle
      (called adc_continuous_new_handle (mock_world [])) = ESP_OK \<and>
    ret (mock_world []) adc_continuous_config
      (called adc_continuous_config (mock_world [])) = ESP_OK"
    by (simp add: mock_defs)
  have f: "\<not> u_continuous_initialized mock_unit \<and>
    (ret no_streaming_world adc_continuous_new_handle
       (called adc_continuous_new_handle no_streaming_world) \<noteq> ESP_OK \<or>
     ret no_streaming_world adc_continuous_config
       (called adc_continuous_config no_streaming_world) \<noteq> ESP_OK)"
    by (simp add: mock_defs)
  have g: "\<not> u_continuous_initialized mock_unit \<and>
    (ret failing_config_world adc_continuous_new_handle
       (called adc_continuous_new_handle failing_config_world) \<noteq> ESP_OK \<or>
     ret failing_config_world adc_continuous_config
       (called adc_continuous_config failing_config_world) \<noteq> ESP_OK)"
    by (simp add: mock_defs called_def)
  have c: "calls (mock_world []) = []"
    by (simp add: mock_defs)
  have "fst (getContinuousHandle mock_unit no_streaming_world) = None"
    using getContinuousHandle_provisions_once [of mock_unit no_streaming_world 1 u1 w1 3 w1] f
    by auto
  moreover have "fst (getContinuousHandle mock_unit failing_config_world) = None"
    using getContinuousHandle_provisions_once [of mock_unit failing_config_world 1 u1 w1 3 w1] g
    by auto
  moreover have "fst (getContinuousHandle mock_unit (mock_world [])) = Some 1 \<and>
   calls w1 = [(adc_continuous_new_handle, None), (adc_continuous_config, Some 1)] \<and>
   getContinuousHandle_times 3 u1 w1 = ([Some 1, Some 1, Some 1], u1, w1)"
    using getContinuousHandle_provisions_once [of mock_unit "mock_world []" 1 u1 w1 3 w1] e p
    by (simp add: c numeral_3_eq_3)
  ultimately show ?thesis
    by (simp add: u1_def [symmetric] w1_def [symmetric] e)
qed

text \<open>
  Claim C4 as stated fails when the first call fails: the flag that makes later calls
  return the cached handle is set only on success, so the second call allocates and
  configures again.
\<close>

theorem getContinuousHandle_retry_counterexample:
  "fst (getContinuousHandle_times 2 mock_unit failing_config_world) = [None, Some 4] \<and>
   called adc_continuous_new_handle
     (snd (snd (getContinuousHandle_times 2 mock_unit failing_config_world))) = 2 \<and>
   called adc_continuous_config
     (snd (snd (getContinuousHandle_times 2 mock_unit failing_config_world))) = 2"
  by (simp add: numeral_2_eq_2 unit_defs mock_defs)

text \<open>
  Claim C5, as the code has it. On a unit that has no streaming handle yet, let
  \<^verbatim>\<open>adc_continuous_new_handle\<close> or \<^verbatim>\<open>adc_continuous_config\<close> fail. Then the function
  reports the failing step's code, which is not \<^verbatim>\<open>ESP_OK\<close>, and \<^verbatim>\<open>getContinuousHandle\<close>
  hands out the null handle. If the handle had been allocated, it is released again by
  \<^verbatim>\<open>adc_continuous_deinit\<close>, so the set of allocated handles is as before. The single-shot
  handle and the unit's initialisation flag are untouched. The failure is not remembered:
  the unit is left without its streaming flag, and a later call provisions again and
  succeeds if the driver then does.
\<close>

theorem ensureContinuousInitialized_failure:
  assumes "\<not> u_continuous_initialized u"
    and "ret w adc_continuous_new_handle (called adc_continuous_new_handle w) \<noteq> ESP_OK \<or>
         ret w adc_continuous_config (called adc_continuous_config w) \<noteq> ESP_OK"
  shows "\<exists>err u1 w1. ensureContinuousInitialized u w = (err, u1, w1) \<and>
         err = (if ret w adc_continuous_new_handle (called adc_continuous_new_handle w) \<noteq> ESP_OK
                then ret w adc_continuous_new_handle (called adc_continuous_new_handle w)
                else ret w adc_continuous_config (called adc_continuous_config w)) \<and>
         err \<noteq> ESP_OK \<and>
         getContinuousHandle u w = (None, u1, w1) \<and>
         live w1 = live w \<and>
         (if ret w adc_continuous_new_handle (called adc_continuous_new_handle w) = ESP_OK
          then \<exists>h. calls w1 = calls w @ [(adc_continuous_new_handle, None),
                     (adc_continuous_config, Some h), (adc_continuous_deinit, Some h)]
          else calls w1 = calls w @ [(adc_continuous_new_handle, None)]) \<and>
         u_is_initialized u1 = u_is_initialized u \<and>
         getOneshotHandle u1 = getOneshotHandle u \<and>
         \<not> u_continuous_initialized u1 \<and>
         (\<forall>w2. ret w2 adc_continuous_new_handle (called adc_continuous_new_handle w2) = ESP_OK \<and>
               ret w2 adc_continuous_config (called adc_continuous_config w2) = ESP_OK \<longrightarrow>
               (\<exists>h u2 w3. getContinuousHandle u1 w2 = (Some h, u2, w3) \<and>
                  calls w3 = calls w2 @ [(adc_continuous_new_handle, None),
                                         (adc_continuous_config, Some h)]))"
proof -
  from getContinuousHandle_after_failure [OF assms]
  obtain u1 w1 where g: "getContinuousHandle u w = (None, u1, w1)"
    and e: "ensureContinuousInitialized u w = (fst (ensureContinuousInitialized u w), u1, w1)"
    and ne: "fst (ensureContinuousInitialized u w) \<noteq> ESP_OK"
    and r: "\<forall>w2. ret w2 adc_continuous_new_handle (called adc_continuous_new_handle w2) = ESP_OK \<and>
                 ret w2 adc_continuous_config (called adc_continuous_config w2) = ESP_OK \<longrightarrow>
                 (\<exists>h u2 w3. getContinuousHandle u1 w2 = (Some h, u2, w3) \<and>
                    calls w3 = calls w2 @ [(adc_continuous_new_handle, None),
                                           (adc_continuous_config, Some h)])"
    by blast
  note c = ensure_failure_cases [OF e ne]
  note d = ensure_driver_failure [OF assms]
  show ?thesis
    using e ne g r c d by (simp add: getOneshotHandle_def)
qed

theorem ensureContinuousInitialized_failure_witness:
  "fst (ensureContinuousInitialized mock_unit failing_config_world) = ESP_FAIL \<and>
   fst (getContinuousHandle mock_unit failing_config_world) = None \<and>
   live (snd (snd (ensureContinuousInitialized mock_unit failing_config_world))) = [] \<and>
   calls (snd (snd (ensureContinuousInitialized mock_unit failing_config_world))) =
     [(adc_continuous_new_handle, None), (adc_continuous_config, Some 1),
      (adc_continuous_deinit, Some 1)] \<and>
   getOneshotHandle (fst (snd (ensureContinuousInitialized mock_unit failing_config_world))) =
     Some 1 \<and>
   (\<exists>h u2 w3. getContinuousHandle
       (fst (snd (ensureContinuousInitialized mock_unit failing_config_world)))
       (snd (snd (ensureContinuousInitialized mock_unit failing_config_world))) = (Some h, u2, w3))"
proof -
  define u1 where "u1 = fst (snd (ensureContinuousInitialized mock_unit failing_config_world))"
  define w1 where "w1 = snd (snd (ensureContinuousInitialized mock_unit failing_config_world))"
  have f: "\<not> u_continuous_initialized mock_unit"
    by (simp add: mock_defs)
  have d: "ret failing_config_world adc_continuous_new_handle
       (called adc_continuous_new_handle failing_config_world) \<noteq> ESP_OK \<or>
     ret failing_config_world adc_continuous_config
       (called adc_continuous_config failing_config_world) \<noteq> ESP_OK"
    by (simp add: mock_defs called_def)
  have v: "ret failing_config_world adc_continuous_new_handle
       (called adc_continuous_new_handle failing_config_world) = ESP_OK"
    "ret failing_config_world adc_continuous_config
       (called adc_continuous_config failing_config_world) = ESP_FAIL"
    by (simp_all add: mock_defs called_def)
  have r: "ret w1 adc_continuous_new_handle (called adc_continuous_new_handle w1) = ESP_OK \<and>
      ret w1 adc_continuous_config (called adc_continuous_config w1) = ESP_OK"
    by (simp add: w1_def unit_defs mock_defs)
  have c: "calls failing_config_world = []" "live failing_config_world = []"
    "getOneshotHandle mock_unit = Some 1"
    by (simp_all add: getOneshotHandle_def mock_defs)
  from ensureContinuousInitialized_failure [OF f d]
  obtain err u1' w1' where e: "ensureContinuousInitialized mock_unit failing_config_world = (err, u1', w1')"
    and err: "err = ESP_FAIL"
    and g: "getContinuousHandle mock_unit failing_config_world = (None, u1', w1')"
    and l: "live w1' = []"
    and k: "\<exists>h. calls w1' = [(adc_continuous_new_handle, None),
                     (adc_continuous_config, Some h), (adc_continuous_deinit, Some h)]"
    and o: "getOneshotHandle u1' = Some 1"
    and t: "\<forall>w2. ret w2 adc_continuous_new_handle (called adc_continuous_new_handle w2) = ESP_OK \<and>
               ret w2 adc_continuous_config (called adc_continuous_config w2) = ESP_OK \<longrightarrow>
               (\<exists>h u2 w3. getContinuousHandle u1' w2 = (Some h, u2, w3) \<and>
                  calls w3 = calls w2 @ [(adc_continuous_new_handle, None),
                                         (adc_continuous_config, Some h)])"
    unfolding v c by (auto simp: ESP_FAIL_def ESP_OK_def)
  have u: "u1' = u1" "w1' = w1"
    using e by (simp_all add: u1_def w1_def)
  have h1: "calls w1 = [(adc_continuous_new_handle, None), (adc_continuous_config, Some 1),
      (adc_continuous_deinit, Some 1)]"
    by (simp add: w1_def unit_defs mock_defs)
  from t r u obtain h u2 w3 where "getContinuousHandle u1 w1 = (Some h, u2, w3)"
    by blast
  then show ?thesis
    using e err g l o h1 u
    by (simp add: u1_def [symmetric] w1_def [symmetric]) 
qed

text \<open>
  Claim C5 as stated fails in its last part: after a failed configuration the next call
  of \<^verbatim>\<open>getContinuousHandle\<close> tries again, and here it returns a handle.
\<close>

theorem getContinuousHandle_not_permanent_counterexample:
  "fst (getContinuousHandle mock_unit failing_config_world) = None \<and>
   fst (getContinuousHandle (fst (snd (getContinuousHandle mock_unit failing_config_world)))
         (snd (snd (getContinuousHandle mock_unit failing_config_world)))) = Some 4"
  by (simp add: unit_defs mock_defs)


section \<open>Properties of sampleForDuration\<close>

declare decode_loop.simps [simp del]

subsection \<open>Decoding\<close>

lemma decode_loop_eq:
  "decode_loop cal buffer n i vs =
     vs @ map (\<lambda>j. cal (decode_sample (buffer ! (i + 2 * j)) (buffer ! (i + 2 * j + 1))))
            [0..<(n + 1 - i) div 2]"
proof (induction cal buffer n i vs rule: decode_loop.induct)
  case (1 cal buffer n i vs)
  show ?case
  proof (cases "i < n")
    case False
    then show ?thesis by (subst decode_loop.simps) simp
  next
    case True
    define v where "v = cal (decode_sample (buffer ! i) (buffer ! (i + 1)))"
    define m where "m = (n + 1 - (i + 2)) div 2"
    have m: "(n + 1 - i) div 2 = Suc m"
      using True unfolding m_def by arith
    have "decode_loop cal buffer n i vs = decode_loop cal buffer n (i + 2) (vs @ [v])"
      using True by (subst decode_loop.simps) (simp add: Let_def v_def)
    also have "\<dots> = (vs @ [v]) @
        map (\<lambda>j. cal (decode_sample (buffer ! (i + 2 + 2 * j)) (buffer ! (i + 2 + 2 * j + 1))))
          [0..<m]"
      unfolding m_def v_def by (rule "1.IH" [OF True refl refl])
    also have "\<dots> = vs @
        map (\<lambda>j. cal (decode_sample (buffer ! (i + 2 * j)) (buffer ! (i + 2 * j + 1))))
          [0..<Suc m]"
      unfolding map_upt_Suc by (simp add: v_def)
    finally show ?thesis unfolding m .
  qed
qed



lemma or_push_bit_low:
  assumes "0 \<le> l" and "l < 2 ^ 8"
  shows "push_bit 8 (h :: int) OR l = push_bit 8 h + l"
proof -
  have t: "take_bit 8 l = l"
    using assms by (simp add: take_bit_int_eq_self)
  have "push_bit 8 h + l = push_bit 8 h OR l"
  proof (rule disjunctive_add)
    fix n
    show "\<not> bit (push_bit 8 h) n \<or> \<not> bit l n"
    proof (cases "n < 8")
      case True
      then show ?thesis by (simp add: bit_push_bit_iff)
    next
      case False
      then have "\<not> bit (take_bit 8 l) n" by (simp add: bit_take_bit_iff)
      then show ?thesis by (simp add: t)
    qed
  qed
  then show ?thesis by simp
qed

lemma and_4095: "(x :: int) AND 4095 = take_bit 12 x"
proof -
  have "(4095 :: int) = mask 12" by (simp add: mask_eq_exp_minus_1)
  then show ?thesis by (simp add: take_bit_eq_mask)
qed

lemma mod_4096:
  assumes "0 \<le> l" and "l < 256"
  shows "((h :: int) * 256 + l) mod 4096 = (h mod 16) * 256 + l"
proof -
  define q r where "q = h div 16" and "r = h mod 16"
  have r: "0 \<le> r" "r < 16" by (simp_all add: r_def)
  have h: "h = q * 16 + r" by (simp add: q_def r_def)
  have "h * 256 + l = q * 4096 + (r * 256 + l)"
    by (subst h) (simp add: algebra_simps)
  then have "(h * 256 + l) mod 4096 = (r * 256 + l) mod 4096"
    by (simp only: mod_mult_self3)
  also have "\<dots> = r * 256 + l"
    using r assms by (intro mod_pos_pos_trivial) simp_all
  finally show ?thesis by (simp add: r_def)
qed

lemma decode_sample_eq: "decode_sample lo hi = (uint hi mod 16) * 256 + uint lo"
proof -
  have a: "uint lo < 2 ^ 8" and b: "0 \<le> uint lo"
    using uint_lt2p [of lo] by simp_all
  have "decode_sample lo hi = take_bit 12 (push_bit 8 (uint hi) + uint lo)"
    unfolding decode_sample_def or_push_bit_low [OF b a] by (rule and_4095)
  also have "\<dots> = (uint hi * 256 + uint lo) mod 4096"
    by (simp add: take_bit_eq_mod push_bit_eq_mult)
  also have "\<dots> = (uint hi mod 16) * 256 + uint lo"
    using a b by (intro mod_4096) simp_all
  finally show ?thesis .
qed

lemma decode_sample_range: "0 \<le> decode_sample lo hi \<and> decode_sample lo hi < 4096"
proof -
  have "uint lo < 2 ^ 8" and "0 \<le> uint lo"
    using uint_lt2p [of lo] by simp_all
  moreover have "0 \<le> uint hi mod 16" and "uint hi mod 16 < 16"
    by simp_all
  ultimately show ?thesis
    unfolding decode_sample_eq by simp
qed

lemma decode_sample_high_nibble: "decode_sample lo (hi AND 15) = decode_sample lo hi"
proof -
  have "uint hi AND mask 4 = uint hi mod 16"
    by (simp add: take_bit_eq_mask [symmetric] take_bit_eq_mod)
  then have "uint hi AND 15 = uint hi mod 16"
    by (simp add: mask_eq_exp_minus_1)
  then have "uint (hi AND 15) = uint hi mod 16"
    by (simp add: uint_and)
  then show ?thesis
    by (simp add: decode_sample_eq)
qed


text \<open>
  The decoding loop appends, in order, one calibrated value for each pair of consecutive
  bytes \<open>2j\<close>, \<open>2j + 1\<close> of the buffer below \<open>bytes_read\<close>; for a frame of \<open>m\<close> whole records
  at the start of the buffer these are the \<open>m\<close> records of the frame.
\<close>

lemma decode_loop_frame:
  "decode_loop cal buffer bytes_read 0 voltages =
     voltages @ map (\<lambda>j. cal (decode_sample (buffer ! (2 * j)) (buffer ! (2 * j + 1))))
                  [0..<(bytes_read + 1) div 2] \<and>
   (length frame = 2 * m \<longrightarrow>
      decode_loop cal (frame @ rest) (length frame) 0 voltages =
        voltages @ map (\<lambda>j. cal (decode_sample (frame ! (2 * j)) (frame ! (2 * j + 1))))
                     [0..<m]) \<and>
   decode_sample low_byte high_byte = (uint high_byte mod 16) * 256 + uint low_byte \<and>
   decode_sample low_byte (high_byte AND 15) = decode_sample low_byte high_byte \<and>
   0 \<le> decode_sample low_byte high_byte \<and> decode_sample low_byte high_byte < 4096"
proof -
  have "decode_loop cal (frame @ rest) (length frame) 0 voltages =
        voltages @ map (\<lambda>j. cal (decode_sample (frame ! (2 * j)) (frame ! (2 * j + 1))))
                     [0..<m]"
    if "length frame = 2 * m"
    using that by (simp add: decode_loop_eq nth_append)
  then show ?thesis
    using decode_loop_eq [of cal buffer bytes_read 0 voltages]
      decode_sample_eq [of low_byte high_byte] decode_sample_high_nibble [of low_byte high_byte]
      decode_sample_range [of low_byte high_byte]
    by simp
qed

lemma decode_sample_examples:
  "decode_sample 52 242 = 564" "decode_sample 255 15 = 4095" "decode_sample 52 2 = 564"
  by (simp_all add: decode_sample_eq)

lemma decode_loop_frame_example:
  "decode_loop (\<lambda>raw. raw) ([52, 242, 255, 15] @ replicate 1020 0) 4 0 [7] = [7, 564, 4095] \<and>
   decode_sample 52 242 = 564 \<and> decode_sample 52 2 = 564"
proof -
  have l: "length [52, 242, 255, 15 :: 8 word] = 2 * 2" by simp
  have u: "[0..<2] = [0, Suc 0]" by (simp add: upt_rec)
  have n: "(4 :: nat) = Suc (Suc (Suc (Suc 0)))" by simp
  show ?thesis
    using decode_loop_frame [of "\<lambda>raw. raw" "[]" 0 "[7]" "[52, 242, 255, 15]" 2
        "replicate 1020 0" 52 242] l
    by (simp add: u decode_sample_examples n)
qed

subsection \<open>The polling loop\<close>

lemma read_warnings_0 [simp]: "read_warnings w 0 = []"
  by (simp add: read_warnings_def)

lemma read_warnings_Suc:
  assumes "called adc_continuous_read w3 = Suc (called adc_continuous_read w)"
    and "ret w3 = ret w"
  shows "read_warnings w (Suc k) =
     (if ret w adc_continuous_read (called adc_continuous_read w) \<noteq> ESP_OK \<and>
         ret w adc_continuous_read (called adc_continuous_read w) \<noteq> ESP_ERR_TIMEOUT
      then [(LOG_W, ''ADC continuous read error'',
             Some (ret w adc_continuous_read (called adc_continuous_read w)))]
      else []) @ read_warnings w3 k"
  using assms by (simp add: read_warnings_def upt_conv_Cons del: upt_Suc)

lemma poll_loop_runs:
  "(\<forall>i<k. elapsed_ms (time_of w (called esp_timer_get_time w + i)) start < int dur) \<Longrightarrow>
   \<not> elapsed_ms (time_of w (called esp_timer_get_time w + k)) start < int dur \<Longrightarrow>
   k < fuel \<Longrightarrow>
   \<exists>buffer' new w'.
     poll_loop fuel c start dur (buffer, voltages, w) = Some (buffer', voltages @ new, w') \<and>
     called adc_continuous_read w' = called adc_continuous_read w + k \<and>
     logged w' = logged w @ read_warnings w k"
proof (induction k arbitrary: fuel buffer voltages w)
  case 0
  then obtain f where f: "fuel = Suc f" by (cases fuel) auto
  from "0.prems"(2) show ?case
    by (simp add: f drv_timer_get_time_def drv_call_def called_def)
next
  case (Suc k)
  then obtain f where f: "fuel = Suc f" and kf: "k < f" by (cases fuel) auto
  define w1 where "w1 = snd (drv_timer_get_time w)"
  define r where "r = ret w adc_continuous_read (called adc_continuous_read w)"
  define bytes where
    "bytes = take (min 1024 (length buffer)) (frame_of w (called adc_continuous_read w))"
  define buffer1 where "buffer1 = bytes @ drop (length bytes) buffer"
  define w2 where "w2 = w1\<lparr>calls := calls w1 @ [(adc_continuous_read, c_cont_handle c)]\<rparr>"
  define voltages1 where
    "voltages1 = (if r = ESP_OK then decode_loop (cali w) buffer1 (length bytes) 0 voltages
                  else voltages)"
  define w3 where
    "w3 = (if r \<noteq> ESP_OK \<and> r \<noteq> ESP_ERR_TIMEOUT
           then log_msg LOG_W ''ADC continuous read error'' (Some r) w2 else w2)"
  have now: "elapsed_ms (time_of w (called esp_timer_get_time w)) start < int dur"
    using Suc.prems(1) by force
  have step: "poll_loop fuel c start dur (buffer, voltages, w) =
      poll_loop f c start dur (buffer1, voltages1, w3)"
    using now
    by (simp add: f drv_timer_get_time_def drv_continuous_read_def drv_call_def Let_def
        called_def w1_def r_def bytes_def buffer1_def w2_def voltages1_def w3_def log_msg_def)
  have t3: "called esp_timer_get_time w3 = Suc (called esp_timer_get_time w)"
    and r3: "called adc_continuous_read w3 = Suc (called adc_continuous_read w)"
    and ret3: "ret w3 = ret w" and time3: "time_of w3 = time_of w"
    and log3: "logged w3 = logged w @
        (if r \<noteq> ESP_OK \<and> r \<noteq> ESP_ERR_TIMEOUT
         then [(LOG_W, ''ADC continuous read error'', Some r)] else [])"
    by (simp_all add: w3_def w2_def w1_def drv_timer_get_time_def drv_call_def log_msg_def
        called_def)
  obtain new0 where new0: "voltages1 = voltages @ new0"
    unfolding voltages1_def by (cases "r = ESP_OK") (simp_all add: decode_loop_eq)
  have a: "\<forall>i<k. elapsed_ms (time_of w3 (called esp_timer_get_time w3 + i)) start < int dur"
    using Suc.prems(1) by (simp add: t3 time3) (metis Suc_less_eq add_Suc_right)
  have b: "\<not> elapsed_ms (time_of w3 (called esp_timer_get_time w3 + k)) start < int dur"
    using Suc.prems(2) by (simp add: t3 time3)
  from Suc.IH [OF a b kf, of buffer1 voltages1]
  obtain buffer' new w' where
    "poll_loop f c start dur (buffer1, voltages1, w3) = Some (buffer', voltages1 @ new, w')"
    and "called adc_continuous_read w' = called adc_continuous_read w3 + k"
    and "logged w' = logged w3 @ read_warnings w3 k"
    by blast
  then have "poll_loop fuel c start dur (buffer, voltages, w) =
        Some (buffer', voltages @ (new0 @ new), w') \<and>
      called adc_continuous_read w' = called adc_continuous_read w + Suc k \<and>
      logged w' = logged w @ read_warnings w (Suc k)"
    unfolding step read_warnings_Suc [OF r3 ret3] by (simp add: new0 r3 log3 r_def)
  then show ?case by blast
qed


text \<open>
  Claim C8. Let the clock allow exactly \<open>k\<close> rounds: the condition of the loop holds at the
  next \<open>k\<close> readings and fails at the one after. Then, whatever the \<open>k\<close> reads return, the
  loop ends (with fuel for \<open>k + 1\<close> rounds) after exactly \<open>k\<close> reads; the samples collected
  before are still there, in front of the new ones; and the log has grown by one warning
  for each read that returned neither \<^verbatim>\<open>ESP_OK\<close> nor \<^verbatim>\<open>ESP_ERR_TIMEOUT\<close>, and by nothing
  else: a timeout is passed over in silence, and no return code ends the loop.
\<close>

theorem poll_loop_read_errors_not_fatal:
  assumes "\<forall>i<k. elapsed_ms (time_of w (called esp_timer_get_time w + i)) start < int dur"
    and "\<not> elapsed_ms (time_of w (called esp_timer_get_time w + k)) start < int dur"
    and "k < fuel"
  shows "\<exists>buffer' new w'.
     poll_loop fuel c start dur (buffer, voltages, w) = Some (buffer', voltages @ new, w') \<and>
     called adc_continuous_read w' = called adc_continuous_read w + k \<and>
     logged w' = logged w @ read_warnings w k"
  using assms by (rule poll_loop_runs)

lemma streaming_run:
  "map_option (\<lambda>st. (fst (snd st), logged (snd (snd st)), calls (snd (snd st))))
     (poll_loop 10 mock_channel 0 3 (replicate 1024 0, [7], streaming_world)) =
   Some ([7, 564, 4095], [(LOG_W, ''ADC continuous read error'', Some ESP_FAIL)],
     [(esp_timer_get_time, None), (adc_continuous_read, Some 2),
      (esp_timer_get_time, None), (adc_continuous_read, Some 2),
      (esp_timer_get_time, None), (adc_continuous_read, Some 2),
      (esp_timer_get_time, None)])"
  by code_simp

theorem poll_loop_read_errors_not_fatal_witness:
  "\<exists>buffer' new w'.
     poll_loop 10 mock_channel 0 3 (replicate 1024 0, [7], streaming_world) =
       Some (buffer', [7] @ new, w') \<and>
     called adc_continuous_read w' = 3 \<and>
     logged w' = [(LOG_W, ''ADC continuous read error'', Some ESP_FAIL)]"
proof -
  have t: "time_of streaming_world = (\<lambda>k. int k * 1000)"
    and c: "called esp_timer_get_time streaming_world = 0"
      "called adc_continuous_read streaming_world = 0"
    and l: "logged streaming_world = []"
    by (simp_all add: streaming_world_def mock_world_def called_def)
  have run: "\<forall>i<3. elapsed_ms (time_of streaming_world
      (called esp_timer_get_time streaming_world + i)) 0 < int 3"
    by (simp add: t c elapsed_ms_def)
  have stop: "\<not> elapsed_ms (time_of streaming_world
      (called esp_timer_get_time streaming_world + 3)) 0 < int 3"
    by (simp add: t c elapsed_ms_def)
  have w: "read_warnings streaming_world 3 =
      [(LOG_W, ''ADC continuous read error'', Some ESP_FAIL)]"
    by code_simp
  show ?thesis
    using poll_loop_read_errors_not_fatal [OF run stop, of 10 mock_channel "replicate 1024 0" "[7]"]
    by (simp add: c l w)
qed


subsection \<open>The calls of a capture\<close>

lemma poll_loop_calls:
  "poll_loop fuel c start dur (buffer, voltages, w) = Some (buffer', voltages', w') \<Longrightarrow>
   \<exists>rest. calls w' = calls w @ rest"
proof (induction fuel arbitrary: buffer voltages w)
  case 0
  then show ?case by simp
next
  case (Suc fuel)
  show ?case
  proof (cases "elapsed_ms (time_of w (called esp_timer_get_time w)) start < int dur")
    case False
    with Suc.prems show ?thesis
      by (auto simp: drv_timer_get_time_def drv_call_def)
  next
    case True
    with Suc.prems obtain b1 v1 w3 where
      "poll_loop fuel c start dur (b1, v1, w3) = Some (buffer', voltages', w')"
      and "\<exists>rest. calls w3 = calls w @ rest"
      by (auto simp: drv_timer_get_time_def drv_continuous_read_def drv_call_def Let_def
          log_msg_def split: if_splits)
    with Suc.IH show ?thesis by fastforce
  qed
qed

lemma sampleForDuration_start:
  assumes "sampleForDuration fuel c dur w = Some (vs, w')"
    and "\<not> malloc_null w (called malloc w)"
  shows "\<exists>rest. calls w' = calls w @ (malloc, None) # (adc_continuous_start, c_cont_handle c) # rest"
proof -
  define w1 where "w1 = w\<lparr>calls := calls w @ [(malloc, None), (adc_continuous_start, c_cont_handle c)]\<rparr>"
  show ?thesis
  proof (cases "ret w adc_continuous_start (called adc_continuous_start w) = ESP_OK")
    case False
    with assms show ?thesis
      by (auto simp: sampleForDuration_def drv_malloc_def drv_call_def log_msg_def called_def)
  next
    case True
    with assms obtain b v w3 where
      p: "poll_loop fuel c (time_of w (called esp_timer_get_time w) mod 2 ^ 64) dur
            (replicate 1024 0, [], w1\<lparr>calls := calls w1 @ [(esp_timer_get_time, None)]\<rparr>) =
          Some (b, v, w3)"
      and w': "calls w' = calls w3 @ [(adc_continuous_stop, c_cont_handle c)]"
      by (auto simp: sampleForDuration_def drv_malloc_def drv_call_def log_msg_def called_def
          drv_timer_get_time_def Let_def w1_def split: option.splits if_splits)
    from poll_loop_calls [OF p] obtain rest where
      "calls w3 = (calls w1 @ [(esp_timer_get_time, None)]) @ rest"
      by auto
    with w' show ?thesis by (simp add: w1_def)
  qed
qed


text \<open>A capture returns: at once and empty handed when the buffer cannot be allocated or
  the streaming does not start, and otherwise, with enough fuel, after as many reads as the
  clock allows.\<close>

lemma elapsed_ms_nonneg: "0 \<le> elapsed_ms now start"
  by (simp add: elapsed_ms_def pos_imp_zdiv_nonneg_iff)

lemma sampleForDuration_malloc_failure:
  "malloc_null w (called malloc w) \<Longrightarrow>
   \<exists>w'. sampleForDuration fuel c dur w = Some ([], w') \<and> calls w' = calls w @ [(malloc, None)]"
  by (simp add: sampleForDuration_def drv_malloc_def drv_call_def log_msg_def)

lemma sampleForDuration_start_failure:
  "\<not> malloc_null w (called malloc w) \<Longrightarrow>
   ret w adc_continuous_start (called adc_continuous_start w) \<noteq> ESP_OK \<Longrightarrow>
   \<exists>w'. sampleForDuration fuel c dur w = Some ([], w') \<and>
        calls w' = calls w @ [(malloc, None), (adc_continuous_start, c_cont_handle c)]"
  by (simp add: sampleForDuration_def drv_malloc_def drv_call_def log_msg_def called_def)

lemma sampleForDuration_returns:
  assumes m: "\<not> malloc_null w (called malloc w)"
    and s: "ret w adc_continuous_start (called adc_continuous_start w) = ESP_OK"
    and run: "\<forall>i<k. elapsed_ms (time_of w (Suc (called esp_timer_get_time w) + i))
                (time_of w (called esp_timer_get_time w) mod 2 ^ 64) < int dur"
    and stop: "\<not> elapsed_ms (time_of w (Suc (called esp_timer_get_time w) + k))
                (time_of w (called esp_timer_get_time w) mod 2 ^ 64) < int dur"
    and fuel: "k < fuel"
  shows "\<exists>vs w'. sampleForDuration fuel c dur w = Some (vs, w') \<and>
           called adc_continuous_read w' = called adc_continuous_read w + k"
proof -
  define w2 where
    "w2 = w\<lparr>calls := calls w @ [(malloc, None), (adc_continuous_start, c_cont_handle c),
             (esp_timer_get_time, None)]\<rparr>"
  define start where "start = time_of w (called esp_timer_get_time w) mod 2 ^ 64"
  have t2: "called esp_timer_get_time w2 = Suc (called esp_timer_get_time w)"
    and r2: "called adc_continuous_read w2 = called adc_continuous_read w"
    and s2: "called adc_continuous_stop w2 = called adc_continuous_stop w"
    and time2: "time_of w2 = time_of w"
    by (simp_all add: w2_def called_def)
  have a: "\<forall>i<k. elapsed_ms (time_of w2 (called esp_timer_get_time w2 + i)) start < int dur"
    using run by (simp add: t2 time2 start_def)
  have b: "\<not> elapsed_ms (time_of w2 (called esp_timer_get_time w2 + k)) start < int dur"
    using stop by (simp add: t2 time2 start_def)
  from poll_loop_runs [OF a b fuel, of c "replicate 1024 0" "[]"]
  obtain buffer' new w3 where
    p: "poll_loop fuel c start dur (replicate 1024 0, [], w2) = Some (buffer', new, w3)"
    and r3: "called adc_continuous_read w3 = called adc_continuous_read w2 + k"
    by auto
  from p have "poll_loop fuel c (time_of w (called esp_timer_get_time w) mod 2 ^ 64) dur
      (replicate 1024 0, [],
       w\<lparr>calls := calls w @ [(malloc, None), (adc_continuous_start, c_cont_handle c),
            (esp_timer_get_time, None)]\<rparr>) = Some (buffer', new, w3)"
    by (simp add: w2_def start_def)
  then show ?thesis
    using m s r3 r2
    by (simp add: sampleForDuration_def drv_malloc_def drv_call_def drv_timer_get_time_def
        Let_def log_msg_def called_def)
qed


subsection \<open>What a capture returns\<close>

lemma stream_values_cong:
  "frame_of w' = frame_of w \<Longrightarrow> ret w' = ret w \<Longrightarrow> cali w' = cali w \<Longrightarrow>
   stream_values w' r k buffer = stream_values w r k buffer"
  by (induction k arbitrary: r buffer) (simp_all add: Let_def)

text \<open>The loop appends exactly the values of \<open>stream_values\<close> to what it had.\<close>

lemma poll_loop_values:
  "(\<forall>i<k. elapsed_ms (time_of w (called esp_timer_get_time w + i)) start < int dur) \<Longrightarrow>
   \<not> elapsed_ms (time_of w (called esp_timer_get_time w + k)) start < int dur \<Longrightarrow>
   k < fuel \<Longrightarrow>
   \<exists>buffer' w'.
     poll_loop fuel c start dur (buffer, voltages, w) =
       Some (buffer', voltages @ stream_values w (called adc_continuous_read w) k buffer, w')"
proof (induction k arbitrary: fuel buffer voltages w)
  case 0
  then obtain f where f: "fuel = Suc f" by (cases fuel) auto
  from "0.prems"(2) show ?case
    by (simp add: f drv_timer_get_time_def drv_call_def called_def)
next
  case (Suc k)
  then obtain f where f: "fuel = Suc f" and kf: "k < f" by (cases fuel) auto
  define w1 where "w1 = snd (drv_timer_get_time w)"
  define r where "r = ret w adc_continuous_read (called adc_continuous_read w)"
  define bytes where
    "bytes = take (min 1024 (length buffer)) (frame_of w (called adc_continuous_read w))"
  define buffer1 where "buffer1 = bytes @ drop (length bytes) buffer"
  define w2 where "w2 = w1\<lparr>calls := calls w1 @ [(adc_continuous_read, c_cont_handle c)]\<rparr>"
  define new0 where
    "new0 = (if r = ESP_OK
             then map (\<lambda>j. cali w (decode_sample (buffer1 ! (2 * j)) (buffer1 ! (2 * j + 1))))
                    [0..<(length bytes + 1) div 2]
             else [])"
  define w3 where
    "w3 = (if r \<noteq> ESP_OK \<and> r \<noteq> ESP_ERR_TIMEOUT
           then log_msg LOG_W ''ADC continuous read error'' (Some r) w2 else w2)"
  have now: "elapsed_ms (time_of w (called esp_timer_get_time w)) start < int dur"
    using Suc.prems(1) by force
  have step: "poll_loop fuel c start dur (buffer, voltages, w) =
      poll_loop f c start dur (buffer1, voltages @ new0, w3)"
    using now
    by (simp add: f drv_timer_get_time_def drv_continuous_read_def drv_call_def Let_def
        called_def w1_def r_def bytes_def buffer1_def w2_def new0_def w3_def log_msg_def
        decode_loop_eq)
  have t3: "called esp_timer_get_time w3 = Suc (called esp_timer_get_time w)"
    and r3: "called adc_continuous_read w3 = Suc (called adc_continuous_read w)"
    and ret3: "ret w3 = ret w" and time3: "time_of w3 = time_of w"
    and frame3: "frame_of w3 = frame_of w" and cali3: "cali w3 = cali w"
    by (simp_all add: w3_def w2_def w1_def drv_timer_get_time_def drv_call_def log_msg_def
        called_def)
  have a: "\<forall>i<k. elapsed_ms (time_of w3 (called esp_timer_get_time w3 + i)) start < int dur"
    using Suc.prems(1) by (simp add: t3 time3) (metis Suc_less_eq add_Suc_right)
  have b: "\<not> elapsed_ms (time_of w3 (called esp_timer_get_time w3 + k)) start < int dur"
    using Suc.prems(2) by (simp add: t3 time3)
  have sv: "stream_values w (called adc_continuous_read w) (Suc k) buffer =
      new0 @ stream_values w3 (called adc_continuous_read w3) k buffer1"
    unfolding r3 stream_values_cong [OF frame3 ret3 cali3]
    by (simp add: Let_def new0_def r_def bytes_def buffer1_def)
  from Suc.IH [OF a b kf, of buffer1 "voltages @ new0"]
  show ?case
    unfolding step sv by simp
qed

text \<open>On frames of whole records that fit the buffer, the values are the calibrated
  records of the frames of the reads that returned \<^verbatim>\<open>ESP_OK\<close>, frame after frame.\<close>

lemma stream_values_whole_records:
  "length buffer = 1024 \<Longrightarrow>
   (\<forall>i<k. even (length (frame_of w (r + i))) \<and> length (frame_of w (r + i)) \<le> 1024) \<Longrightarrow>
   stream_values w r k buffer =
     concat (map (\<lambda>i. if ret w adc_continuous_read i = ESP_OK
                       then map (cali w) (frame_records (frame_of w i)) else [])
               [r..<r + k])"
proof (induction k arbitrary: r buffer)
  case 0
  then show ?case by simp
next
  case (Suc k)
  define frame where "frame = frame_of w r"
  define buffer1 where "buffer1 = frame @ drop (length frame) buffer"
  have fr: "even (length frame)" "length frame \<le> 1024"
    using Suc.prems(2) [rule_format, of 0] by (simp_all add: frame_def)
  have tk: "take (min 1024 (length buffer)) (frame_of w r) = frame"
    using fr Suc.prems(1) by (simp add: frame_def)
  have len1: "length buffer1 = 1024"
    using fr Suc.prems(1) by (simp add: buffer1_def)
  have half: "(length frame + 1) div 2 = length frame div 2"
    using fr(1) by (elim evenE) simp
  have rec: "map (\<lambda>j. cali w (decode_sample (buffer1 ! (2 * j)) (buffer1 ! (2 * j + 1))))
               [0..<length frame div 2] = map (cali w) (frame_records frame)"
  proof -
    have "2 * j < length frame \<and> 2 * j + 1 < length frame" if "j < length frame div 2" for j
      using that fr(1) by (elim evenE) simp
    then show ?thesis
      by (simp add: frame_records_def buffer1_def nth_append)
  qed
  have rest: "\<forall>i<k. even (length (frame_of w (Suc r + i))) \<and> length (frame_of w (Suc r + i)) \<le> 1024"
    using Suc.prems(2) by (metis Suc_less_eq add_Suc_right add_Suc)
  have "stream_values w r (Suc k) buffer =
      (if ret w adc_continuous_read r = ESP_OK
       then map (\<lambda>j. cali w (decode_sample (buffer1 ! (2 * j)) (buffer1 ! (2 * j + 1))))
              [0..<(length frame + 1) div 2]
       else []) @
      stream_values w (Suc r) k buffer1"
    unfolding stream_values.simps Let_def tk buffer1_def ..
  also have "\<dots> =
      (if ret w adc_continuous_read r = ESP_OK then map (cali w) (frame_records frame) else []) @
      stream_values w (Suc r) k buffer1"
    unfolding half rec ..
  also have "stream_values w (Suc r) k buffer1 =
      concat (map (\<lambda>i. if ret w adc_continuous_read i = ESP_OK
                       then map (cali w) (frame_records (frame_of w i)) else [])
               [Suc r..<Suc r + k])"
    by (rule Suc.IH [OF len1 rest])
  finally show ?case
    by (simp add: upt_conv_Cons frame_def del: upt_Suc)
qed

text \<open>
  Claim C9. Let the buffer be allocated, the streaming start, and the clock allow exactly
  \<open>k\<close> rounds. Then \<^verbatim>\<open>sampleForDuration\<close> returns (with fuel for \<open>k + 1\<close> rounds), and the
  sequence it returns is, for each of the \<open>k\<close> reads in order, the calibrated value of
  every pair of consecutive bytes \<open>2j\<close>, \<open>2j + 1\<close> the read delivered (nothing for a read
  that did not return \<^verbatim>\<open>ESP_OK\<close>); for frames of whole records these are the calibrated
  records of the frames, in order. A record is the low byte plus 256 times the low four
  bits of the high byte: the upper four bits of the high byte do not matter, and the raw
  code lies in \<open>[0, 4095]\<close>.
\<close>

theorem sampleForDuration_decodes_records:
  assumes m: "\<not> malloc_null w (called malloc w)"
    and s: "ret w adc_continuous_start (called adc_continuous_start w) = ESP_OK"
    and run: "\<forall>i<k. elapsed_ms (time_of w (Suc (called esp_timer_get_time w) + i))
                (time_of w (called esp_timer_get_time w) mod 2 ^ 64) < int dur"
    and stop: "\<not> elapsed_ms (time_of w (Suc (called esp_timer_get_time w) + k))
                (time_of w (called esp_timer_get_time w) mod 2 ^ 64) < int dur"
    and fuel: "k < fuel"
  shows "(\<exists>w'. sampleForDuration fuel c dur w =
            Some (stream_values w (called adc_continuous_read w) k (replicate 1024 0), w')) \<and>
         ((\<forall>i<k. even (length (frame_of w (called adc_continuous_read w + i))) \<and>
                 length (frame_of w (called adc_continuous_read w + i)) \<le> 1024) \<longrightarrow>
          (\<exists>w'. sampleForDuration fuel c dur w =
             Some (concat (map (\<lambda>i. if ret w adc_continuous_read i = ESP_OK
                                    then map (cali w) (frame_records (frame_of w i)) else [])
                            [called adc_continuous_read w..<called adc_continuous_read w + k]),
                   w'))) \<and>
         decode_sample low_byte high_byte = (uint high_byte mod 16) * 256 + uint low_byte \<and>
         decode_sample low_byte (high_byte AND 15) = decode_sample low_byte high_byte \<and>
         0 \<le> decode_sample low_byte high_byte \<and> decode_sample low_byte high_byte < 4096"
proof -
  define w2 where
    "w2 = w\<lparr>calls := calls w @ [(malloc, None), (adc_continuous_start, c_cont_handle c),
             (esp_timer_get_time, None)]\<rparr>"
  define start where "start = time_of w (called esp_timer_get_time w) mod 2 ^ 64"
  have t2: "called esp_timer_get_time w2 = Suc (called esp_timer_get_time w)"
    and r2: "called adc_continuous_read w2 = called adc_continuous_read w"
    and time2: "time_of w2 = time_of w"
    and frame2: "frame_of w2 = frame_of w" and ret2: "ret w2 = ret w" and cali2: "cali w2 = cali w"
    by (simp_all add: w2_def called_def)
  have a: "\<forall>i<k. elapsed_ms (time_of w2 (called esp_timer_get_time w2 + i)) start < int dur"
    using run by (simp add: t2 time2 start_def)
  have b: "\<not> elapsed_ms (time_of w2 (called esp_timer_get_time w2 + k)) start < int dur"
    using stop by (simp add: t2 time2 start_def)
  from poll_loop_values [OF a b fuel, of c "replicate 1024 0" "[]"]
  obtain buffer' w3 where
    "poll_loop fuel c start dur (replicate 1024 0, [], w2) =
       Some (buffer', stream_values w (called adc_continuous_read w) k (replicate 1024 0), w3)"
    unfolding r2 stream_values_cong [OF frame2 ret2 cali2] by auto
  then have "poll_loop fuel c (time_of w (called esp_timer_get_time w) mod 2 ^ 64) dur
      (replicate 1024 0, [],
       w\<lparr>calls := calls w @ [(malloc, None), (adc_continuous_start, c_cont_handle c),
            (esp_timer_get_time, None)]\<rparr>) =
      Some (buffer', stream_values w (called adc_continuous_read w) k (replicate 1024 0), w3)"
    by (simp add: w2_def start_def)
  then have ret: "\<exists>w'. sampleForDuration fuel c dur w =
      Some (stream_values w (called adc_continuous_read w) k (replicate 1024 0), w')"
    using m s
    by (simp add: sampleForDuration_def drv_malloc_def drv_call_def drv_timer_get_time_def
        Let_def log_msg_def called_def)
  have whole: "stream_values w (called adc_continuous_read w) k (replicate 1024 0) =
      concat (map (\<lambda>i. if ret w adc_continuous_read i = ESP_OK
                        then map (cali w) (frame_records (frame_of w i)) else [])
                [called adc_continuous_read w..<called adc_continuous_read w + k])"
    if "\<forall>i<k. even (length (frame_of w (called adc_continuous_read w + i))) \<and>
              length (frame_of w (called adc_continuous_read w + i)) \<le> 1024"
    using stream_values_whole_records [OF _ that] by simp
  show ?thesis
    using ret whole decode_sample_eq [of low_byte high_byte]
      decode_sample_high_nibble [of low_byte high_byte]
      decode_sample_range [of low_byte high_byte]
    by auto
qed

lemma streaming_values:
  "stream_values streaming_world 0 3 (replicate 1024 0) = [564, 4095]"
  by code_simp

theorem sampleForDuration_decodes_records_witness:
  "\<exists>w'. sampleForDuration 10 mock_channel 4 streaming_world = Some ([564, 4095], w')"
proof -
  have t: "time_of streaming_world = (\<lambda>k. int k * 1000)"
    and c: "called esp_timer_get_time streaming_world = 0"
      "called adc_continuous_read streaming_world = 0"
    and m: "\<not> malloc_null streaming_world (called malloc streaming_world)"
    and s: "ret streaming_world adc_continuous_start
              (called adc_continuous_start streaming_world) = ESP_OK"
    by (simp_all add: streaming_world_def mock_world_def called_def ESP_OK_def
        ESP_ERR_TIMEOUT_def ESP_FAIL_def)
  have run: "\<forall>i<3. elapsed_ms (time_of streaming_world
        (Suc (called esp_timer_get_time streaming_world) + i))
      (time_of streaming_world (called esp_timer_get_time streaming_world) mod 2 ^ 64) < int 4"
    by (simp add: t c elapsed_ms_def)
  have stop: "\<not> elapsed_ms (time_of streaming_world
        (Suc (called esp_timer_get_time streaming_world) + 3))
      (time_of streaming_world (called esp_timer_get_time streaming_world) mod 2 ^ 64) < int 4"
    by (simp add: t c elapsed_ms_def)
  show ?thesis
    using sampleForDuration_decodes_records [OF m s run stop, of 10 mock_channel]
    by (simp add: c streaming_values)
qed

section \<open>Properties of ADCChannel::create\<close>

lemma getContinuousHandle_frame:
  "ret (snd (snd (getContinuousHandle u w))) = ret w \<and>
   called adc_oneshot_config_channel (snd (snd (getContinuousHandle u w))) =
     called adc_oneshot_config_channel w \<and>
   called adc_cali_create_scheme_curve_fitting (snd (snd (getContinuousHandle u w))) =
     called adc_cali_create_scheme_curve_fitting w"
  by (simp add: unit_defs)

text \<open>
  Claim C10. When the single-shot channel configuration and the creation of the
  calibration context succeed, \<^verbatim>\<open>create\<close> returns an initialised channel, whatever
  happens to the streaming handle. The constructor calls \<^verbatim>\<open>getContinuousHandle\<close> first:
  the channel caches what that call returns, the unit is left as that call leaves it, and
  the calls of the channel's own two steps follow those of the provisioning. If the
  provisioning failed, the cached handle is null, and a later \<^verbatim>\<open>sampleForDuration\<close>
  starts the streaming on that null handle.
\<close>

theorem ADCChannel_create_independent_of_streaming:
  assumes cfg: "ret w adc_oneshot_config_channel (called adc_oneshot_config_channel w) = ESP_OK"
    and cal: "ret w adc_cali_create_scheme_curve_fitting
                (called adc_cali_create_scheme_curve_fitting w) = ESP_OK"
  shows "\<exists>c u1 w1. ADCChannel_create u channel atten w = (Some c, u1, w1) \<and>
     c_is_initialized c \<and>
     c_oneshot_handle c = getOneshotHandle u \<and>
     c_cont_handle c = fst (getContinuousHandle u w) \<and>
     u1 = fst (snd (getContinuousHandle u w)) \<and>
     calls w1 = calls (snd (snd (getContinuousHandle u w))) @
       [(adc_oneshot_config_channel, getOneshotHandle u),
        (adc_cali_create_scheme_curve_fitting, None)] \<and>
     (fst (ensureContinuousInitialized u w) \<noteq> ESP_OK \<longrightarrow>
        c_cont_handle c = None \<and>
        (\<forall>fuel dur w2 vs w3.
           \<not> malloc_null w2 (called malloc w2) \<and>
           sampleForDuration fuel c dur w2 = Some (vs, w3) \<longrightarrow>
             (\<exists>rest. calls w3 =
                calls w2 @ (malloc, None) # (adc_continuous_start, None) # rest)))"
proof -
  obtain h u1 w1 where g: "getContinuousHandle u w = (h, u1, w1)"
    by (cases "getContinuousHandle u w") auto
  from getContinuousHandle_frame [of u w] g
  have f: "ret w1 = ret w"
    "called adc_oneshot_config_channel w1 = called adc_oneshot_config_channel w"
    "called adc_cali_create_scheme_curve_fitting w1 = called adc_cali_create_scheme_curve_fitting w"
    by simp_all
  define c where
    "c = \<lparr>c_oneshot_handle = getOneshotHandle u, c_cont_handle = h, c_channel = channel,
          c_cali_handle = Some (Suc (Suc (length (calls w1)))), c_is_initialized = True\<rparr>"
  define w3 where
    "w3 = w1\<lparr>calls := calls w1 @ [(adc_oneshot_config_channel, getOneshotHandle u),
              (adc_cali_create_scheme_curve_fitting, None)]\<rparr>"
  have cr: "ADCChannel_create u channel atten w = (Some c, u1, w3)"
    using cfg cal f
    by (simp add: ADCChannel_create_def ADCChannel_ctor_def g drv_create_def drv_call_def
        Let_def called_def c_def w3_def)
  have n: "h = None" if "fst (ensureContinuousInitialized u w) \<noteq> ESP_OK"
    using getContinuousHandle_failed [OF that] g by simp
  have s: "\<exists>rest. calls w3' = calls w2 @ (malloc, None) # (adc_continuous_start, None) # rest"
    if "fst (ensureContinuousInitialized u w) \<noteq> ESP_OK"
      and "\<not> malloc_null w2 (called malloc w2)"
      and "sampleForDuration fuel c dur w2 = Some (vs, w3')" for fuel dur w2 vs w3'
    using sampleForDuration_start [OF that(3) that(2)] n [OF that(1)] by (simp add: c_def)
  show ?thesis
    using cr n s by (auto simp: g c_def w3_def)
qed

lemma no_streaming_create:
  "fst (ADCChannel_create mock_unit 0 0 no_streaming_world) =
     Some \<lparr>c_oneshot_handle = Some 1, c_cont_handle = None, c_channel = 0,
           c_cali_handle = Some 3, c_is_initialized = True\<rparr> \<and>
   calls (snd (snd (ADCChannel_create mock_unit 0 0 no_streaming_world))) =
     [(adc_continuous_new_handle, None), (adc_oneshot_config_channel, Some 1),
      (adc_cali_create_scheme_curve_fitting, None)]"
  by code_simp

lemma no_streaming_sample:
  "map_option (\<lambda>r. (fst r, calls (snd r)))
     (sampleForDuration 5 (the (fst (ADCChannel_create mock_unit 0 0 no_streaming_world))) 10
        (snd (snd (ADCChannel_create mock_unit 0 0 no_streaming_world)))) =
   Some ([], [(adc_continuous_new_handle, None), (adc_oneshot_config_channel, Some 1),
      (adc_cali_create_scheme_curve_fitting, None), (malloc, None),
      (adc_continuous_start, None)])"
  by code_simp


theorem ADCChannel_create_independent_of_streaming_witness:
  "\<exists>c u1 w1. ADCChannel_create mock_unit 0 0 no_streaming_world = (Some c, u1, w1) \<and>
     c_is_initialized c \<and> c_cont_handle c = None \<and>
     (\<exists>vs w3 rest. sampleForDuration 5 c 10 w1 = Some (vs, w3) \<and>
        calls w3 = calls w1 @ (malloc, None) # (adc_continuous_start, None) # rest)"
proof -
  have cfg: "ret no_streaming_world adc_oneshot_config_channel
      (called adc_oneshot_config_channel no_streaming_world) = ESP_OK"
    and cal: "ret no_streaming_world adc_cali_create_scheme_curve_fitting
      (called adc_cali_create_scheme_curve_fitting no_streaming_world) = ESP_OK"
    by (simp_all add: mock_defs)
  have fail: "fst (ensureContinuousInitialized mock_unit no_streaming_world) \<noteq> ESP_OK"
    by (simp add: unit_defs mock_defs)
  from ADCChannel_create_independent_of_streaming [OF cfg cal, of mock_unit 0 0] fail
  obtain c u1 w1 where
    cr: "ADCChannel_create mock_unit 0 0 no_streaming_world = (Some c, u1, w1)"
    and i: "c_is_initialized c" and n: "c_cont_handle c = None"
    and s: "\<And>fuel dur w2 vs w3. \<not> malloc_null w2 (called malloc w2) \<Longrightarrow>
         sampleForDuration fuel c dur w2 = Some (vs, w3) \<Longrightarrow>
         \<exists>rest. calls w3 = calls w2 @ (malloc, None) # (adc_continuous_start, None) # rest"
    by blast
  have m: "\<not> malloc_null w1 (called malloc w1)"
    using cr
    by (auto simp: ADCChannel_create_def ADCChannel_ctor_def unit_defs mock_defs
        split: if_splits)
  from no_streaming_sample cr obtain vs w3 where
    r: "sampleForDuration 5 c 10 w1 = Some (vs, w3)"
    by auto
  from s [OF m r] cr i n r show ?thesis by blast
qed


end
